theory Spec2Isabelle
  imports Complex_Main "HOL-Library.Word" "HOL-Library.Log_Nat"
begin

unbundle bit_operations_syntax

section \<open>Single-precision arithmetic\<close>

text \<open>
  The pen position, the cursor and the vertex coordinates of the renderer are C++
  \<^verbatim>\<open>float\<close>s.  A finite binary32 value is represented by the real number it
  denotes; every arithmetic operation computes the exact result and rounds it to the
  nearest value with a 24-bit significand (ties to even, exponent of the last place
  at least \<open>-149\<close>).  A result whose rounded magnitude exceeds \<open>FLT_MAX\<close>, and a
  division by zero, give \<open>NonFinite\<close>, which stands for the infinities and NaN and
  absorbs every further addition, subtraction and division.
\<close>

definition ilog2 :: "real \<Rightarrow> int" where
  "ilog2 r = (if 1 \<le> \<bar>r\<bar> then bitlen \<lfloor>\<bar>r\<bar>\<rfloor> - 1 else - bitlen (\<lceil>1 / \<bar>r\<bar>\<rceil> - 1))"

definition float_exp :: "real \<Rightarrow> int" where
  "float_exp r = max (- 149) (ilog2 r - 23)"

definition round_ties_even :: "real \<Rightarrow> int" where
  "round_ties_even r =
     (let f = \<lfloor>r\<rfloor> in
      if r - of_int f < 1 / 2 then f
      else if 1 / 2 < r - of_int f then f + 1
      else if even f then f else f + 1)"

definition rnd32 :: "real \<Rightarrow> real" where
  "rnd32 r = (if r = 0 then 0
              else of_int (round_ties_even (r / 2 powi float_exp r)) * 2 powi float_exp r)"

definition FLT_MAX :: real where
  "FLT_MAX = (2 ^ 24 - 1) * 2 ^ 104"

datatype float = Finite real | NonFinite

definition mk_float :: "real \<Rightarrow> float" where
  "mk_float r = (if \<bar>rnd32 r\<bar> \<le> FLT_MAX then Finite (rnd32 r) else NonFinite)"

fun fadd :: "float \<Rightarrow> float \<Rightarrow> float" where
  "fadd (Finite a) (Finite b) = mk_float (a + b)"
| "fadd _ _ = NonFinite"

fun fsub :: "float \<Rightarrow> float \<Rightarrow> float" where
  "fsub (Finite a) (Finite b) = mk_float (a - b)"
| "fsub _ _ = NonFinite"

fun fdiv :: "float \<Rightarrow> float \<Rightarrow> float" where
  "fdiv (Finite a) (Finite b) = (if b = 0 then NonFinite else mk_float (a / b))"
| "fdiv _ _ = NonFinite"

text \<open>The implicit conversion of an \<^verbatim>\<open>int\<close> (or \<^verbatim>\<open>short\<close>) operand to \<^verbatim>\<open>float\<close>.\<close>

definition float_of_int :: "int \<Rightarrow> float" where
  "float_of_int i = mk_float (of_int i)"

text \<open>The values a \<^verbatim>\<open>float\<close> variable can hold.\<close>

fun valid_float :: "float \<Rightarrow> bool" where
  "valid_float NonFinite = True"
| "valid_float (Finite v) = (rnd32 v = v \<and> \<bar>v\<bar> \<le> FLT_MAX)"


section \<open>The glyph atlas: \<^verbatim>\<open>celttf/truetypefont.cpp\<close>\<close>

subsection \<open>Data\<close>

text \<open>
  \<^verbatim>\<open>struct Glyph\<close>.  \<^verbatim>\<open>wchar_t\<close> and \<^verbatim>\<open>int\<close> are mathematical integers here: the
  source's signed arithmetic has no defined wrap-around, and no claim depends on it.
\<close>

record Glyph =
  ch :: int
  ax :: int
  ay :: int
  bw :: int
  bh :: int
  bl :: int
  bt :: int
  tx :: float
  ty :: float

text \<open>\<^verbatim>\<open>Glyph g_badGlyph = {0}\<close>: the sentinel, every member zero.\<close>

definition g_badGlyph :: Glyph where
  "g_badGlyph = \<lparr>ch = 0, ax = 0, ay = 0, bw = 0, bh = 0, bl = 0, bt = 0,
                  tx = Finite 0, ty = Finite 0\<rparr>"

text \<open>\<^verbatim>\<open>struct FontVertex\<close> with its members \<^verbatim>\<open>x, y, u, v\<close>.\<close>

record FontVertex =
  fv_x :: float
  fv_y :: float
  fv_u :: float
  fv_v :: float

text \<open>
  What FreeType leaves in the face's glyph slot after a successful
  \<^verbatim>\<open>FT_Load_Char(m_face, ch, FT_LOAD_RENDER)\<close>: the advance in 26.6 fixed point, the
  bitmap's (unsigned) width and rows, and its bearing.
\<close>

record FT_GlyphSlot =
  advance_x :: int
  advance_y :: int
  bitmap_width :: nat
  bitmap_rows :: nat
  bitmap_left :: int
  bitmap_top :: int

text \<open>
  The collaborators of the font: the face (\<open>None\<close> is a non-zero FreeType error code),
  the name that the \<open>k\<close>-th call of \<^verbatim>\<open>glGenTextures\<close> writes (0 when it writes none),
  whether the shader manager has a program called "text", and the indeterminate
  contents of a \<^verbatim>\<open>Glyph c;\<close> declared without an initialiser.
\<close>

record FontEnv =
  FT_Load_Char :: "int \<Rightarrow> FT_GlyphSlot option"
  glGenTextures :: "nat \<Rightarrow> nat"
  getShader_text :: bool
  uninit_Glyph :: Glyph

text \<open>The calls the font issues to the graphics device and to \<^verbatim>\<open>cerr\<close>, in order.\<close>

datatype 'm effect =
    GlActiveTexture
  | GlDeleteTextures nat
  | GlGenTextures nat
  | GlBindTexture nat
  | GlTexImage2D int int
  | GlPixelStorei
  | GlTexParameteri
  | GlTexSubImage2D int int nat nat
  | GlEnableVertexAttribArray
  | GlVertexAttribPointer
  | GlDrawElements "FontVertex list" "nat list"
  | GlDisableVertexAttribArray
  | GlUseProgram0
  | ProgUse
  | SamplerParam
  | Mat4Param 'm
  | LoadingCharacterFailed int

text \<open>
  \<^verbatim>\<open>struct TextureFontPrivate\<close>.  \<open>m_prog\<close> holds whether the pointer is non-null,
  \<open>effects\<close> is the log of calls issued so far, \<open>gl_gen_count\<close> counts the calls of
  \<^verbatim>\<open>glGenTextures\<close>, and \<open>render_log\<close> records the arguments of every
  \<^verbatim>\<open>render(wchar_t, float, float)\<close>.
\<close>

record 'm TextureFontPrivate =
  m_prog :: bool
  m_maxAscent :: int
  m_maxDescent :: int
  m_maxWidth :: int
  m_texWidth :: int
  m_texHeight :: int
  m_texName :: nat
  m_glyphs :: "Glyph list"
  m_maxTextureSize :: int
  m_commonGlyphsCount :: int
  m_inserted :: int
  m_MVP :: 'm
  m_shaderInUse :: bool
  m_fontVertices :: "FontVertex list"
  effects :: "'m effect list"
  gl_gen_count :: nat
  render_log :: "(int \<times> float \<times> float) list"

text \<open>\<^verbatim>\<open>m_unicodeBlocks\<close>, as the constructor sets it: Basic Latin and lower case Greek.\<close>

definition m_unicodeBlocks :: "(int \<times> int) list" where
  "m_unicodeBlocks = [(0x0020, 0x007E), (0x03B1, 0x03CF)]"

subsection \<open>Loading glyphs\<close>

definition loadGlyphInfo :: "FontEnv \<Rightarrow> int \<Rightarrow> Glyph \<Rightarrow> bool \<times> Glyph" where
  "loadGlyphInfo env c g =
     (case FT_Load_Char env c of
        None \<Rightarrow> (False, g\<lparr>ch := 0\<rparr>)
      | Some s \<Rightarrow>
          (True, g\<lparr>ch := c,
                   ax := drop_bit 6 (advance_x s),
                   ay := drop_bit 6 (advance_y s),
                   bw := int (bitmap_width s),
                   bh := int (bitmap_rows s),
                   bl := bitmap_left s,
                   bt := bitmap_top s\<rparr>))"

definition common_chars :: "int list" where
  "common_chars = concat (map (\<lambda>b. [fst b .. snd b]) m_unicodeBlocks)"

definition initCommonGlyphs ::
  "FontEnv \<Rightarrow> 'm TextureFontPrivate \<Rightarrow> 'm TextureFontPrivate" where
  "initCommonGlyphs env st =
     (if length (m_glyphs st) > 0 then st
      else st\<lparr>m_glyphs := map (\<lambda>c. snd (loadGlyphInfo env c (uninit_Glyph env))) common_chars,
              effects := effects st @
                map LoadingCharacterFailed
                  (filter (\<lambda>c. \<not> fst (loadGlyphInfo env c (uninit_Glyph env))) common_chars)\<rparr>)"

subsection \<open>Packing\<close>

text \<open>
  The loop of \<^verbatim>\<open>computeTextureSize\<close> over \<open>m_glyphs\<close>, with its running row width and
  height and the width and height found so far; the two assignments after the loop
  are the base case.
\<close>

fun computeTextureSize_loop ::
  "int \<Rightarrow> Glyph list \<Rightarrow> int \<Rightarrow> int \<Rightarrow> int \<Rightarrow> int \<Rightarrow> int \<times> int" where
  "computeTextureSize_loop maxTex [] roww rowh w h = (max w roww, h + rowh)"
| "computeTextureSize_loop maxTex (c # cs) roww rowh w h =
     (if ch c = 0 then computeTextureSize_loop maxTex cs roww rowh w h
      else if roww + bw c + 1 \<ge> maxTex
      then computeTextureSize_loop maxTex cs (0 + (bw c + 1)) (max 0 (bh c)) (max w roww) (h + rowh)
      else computeTextureSize_loop maxTex cs (roww + (bw c + 1)) (max rowh (bh c)) w h)"

definition computeTextureSize :: "'m TextureFontPrivate \<Rightarrow> 'm TextureFontPrivate" where
  "computeTextureSize st =
     (let (w, h) = computeTextureSize_loop (m_maxTextureSize st) (m_glyphs st) 0 0 0 0
      in st\<lparr>m_texWidth := w, m_texHeight := h\<rparr>)"

text \<open>
  The pasting loop of \<^verbatim>\<open>buildAtlas\<close>: the glyphs with their new texture coordinates,
  and the calls issued (one \<^verbatim>\<open>glTexSubImage2D\<close> per glyph placed).
\<close>

fun buildAtlas_loop ::
  "FontEnv \<Rightarrow> int \<Rightarrow> int \<Rightarrow> Glyph list \<Rightarrow> int \<Rightarrow> int \<Rightarrow> int \<Rightarrow> Glyph list \<times> 'm effect list" where
  "buildAtlas_loop env texW texH [] ox oy rowh = ([], [])"
| "buildAtlas_loop env texW texH (c # cs) ox oy rowh =
     (if ch c = 0 then
        (let (gs, es) = buildAtlas_loop env texW texH cs ox oy rowh in (c # gs, es))
      else
        (case FT_Load_Char env (ch c) of
           None \<Rightarrow>
             (let (gs, es) = buildAtlas_loop env texW texH cs ox oy rowh
              in (c\<lparr>ch := 0\<rparr> # gs, LoadingCharacterFailed (ch c) # es))
         | Some s \<Rightarrow>
             (let wrap = (ox + int (bitmap_width s) > texW);
                  oy1 = (if wrap then oy + rowh else oy);
                  rowh1 = (if wrap then 0 else rowh);
                  ox1 = (if wrap then 0 else ox);
                  (gs, es) = buildAtlas_loop env texW texH cs
                               (ox1 + (int (bitmap_width s) + 1)) oy1
                               (max rowh1 (int (bitmap_rows s)))
              in (c\<lparr>tx := fdiv (float_of_int ox1) (float_of_int texW),
                     ty := fdiv (float_of_int oy1) (float_of_int texH)\<rparr> # gs,
                  GlTexSubImage2D ox1 oy1 (bitmap_width s) (bitmap_rows s) # es))))"

definition buildAtlas ::
  "FontEnv \<Rightarrow> 'm TextureFontPrivate \<Rightarrow> bool \<times> 'm TextureFontPrivate" where
  "buildAtlas env st0 =
     (let st1 = initCommonGlyphs env st0;
          st2 = computeTextureSize st1;
          del = (if m_texName st2 \<noteq> 0 then [GlDeleteTextures (m_texName st2)] else []);
          name = glGenTextures env (gl_gen_count st2);
          st3 = st2\<lparr>m_texName := name,
                    gl_gen_count := Suc (gl_gen_count st2),
                    effects := effects st2 @ [GlActiveTexture] @ del @ [GlGenTextures name]\<rparr>
      in if name = 0 then (False, st3)
         else
           (let (gs, es) = buildAtlas_loop env (m_texWidth st3) (m_texHeight st3)
                             (m_glyphs st3) 0 0 0
            in (True,
                st3\<lparr>m_glyphs := gs,
                    effects := effects st3 @
                      [GlBindTexture name, GlTexImage2D (m_texWidth st3) (m_texHeight st3),
                       GlPixelStorei, GlTexParameteri, GlTexParameteri, GlTexParameteri,
                       GlTexParameteri] @ es\<rparr>)))"

subsection \<open>Lookup\<close>

definition getCommonGlyphsCount ::
  "'m TextureFontPrivate \<Rightarrow> int \<times> 'm TextureFontPrivate" where
  "getCommonGlyphsCount st =
     (let st' = (if m_commonGlyphsCount st = 0
                 then st\<lparr>m_commonGlyphsCount :=
                           foldl (\<lambda>n b. n + (snd b - fst b + 1)) (m_commonGlyphsCount st)
                             m_unicodeBlocks\<rparr>
                 else st)
      in (m_commonGlyphsCount st', st'))"

fun toPos_loop :: "int \<Rightarrow> (int \<times> int) list \<Rightarrow> int \<Rightarrow> int" where
  "toPos_loop c [] pos = - 1"
| "toPos_loop c (r # rs) pos =
     (if c < fst r then - 1
      else if c \<le> snd r then pos + c - fst r
      else toPos_loop c rs (pos + (snd r - fst r + 1)))"

definition toPos :: "int \<Rightarrow> int" where
  "toPos c = (if c > snd (last m_unicodeBlocks) then - 1 else toPos_loop c m_unicodeBlocks 0)"

definition optimize :: "'m TextureFontPrivate \<Rightarrow> 'm TextureFontPrivate" where
  "optimize st = st\<lparr>m_inserted := 0\<rparr>"

text \<open>
  \<^verbatim>\<open>getGlyph(wchar_t)\<close> returns a reference; the model returns the record it refers to
  on return, and the font.  \<open>None\<close> is undefined behaviour: an index or an iterator
  beyond the end of \<open>m_glyphs\<close>.
\<close>

definition getGlyph ::
  "FontEnv \<Rightarrow> int \<Rightarrow> 'm TextureFontPrivate \<Rightarrow> (Glyph \<times> 'm TextureFontPrivate) option" where
  "getGlyph env c st =
     (let pos = toPos c in
      if pos \<noteq> - 1 then
        (if nat pos < length (m_glyphs st) then Some (m_glyphs st ! nat pos, st) else None)
      else
        (let (n, st1) = getCommonGlyphsCount st in
         if nat n > length (m_glyphs st1) then None
         else
           (case find (\<lambda>g. ch g = c) (drop (nat n) (m_glyphs st1)) of
              Some g \<Rightarrow> Some (g, st1)
            | None \<Rightarrow>
                (let (ok, cg) = loadGlyphInfo env c (uninit_Glyph env) in
                 if \<not> ok then Some (g_badGlyph, st1)
                 else
                   (let st2 = st1\<lparr>m_glyphs := m_glyphs st1 @ [cg]\<rparr>;
                        st3 = st2\<lparr>m_inserted := m_inserted st2 + 1\<rparr>;
                        st4 = (if m_inserted st3 = 10 then optimize st3 else st3);
                        st5 = snd (buildAtlas env st4)
                    in Some (last (m_glyphs st5), st5))))))"

text \<open>\<^verbatim>\<open>getGlyph(wchar_t ch, wchar_t fallback)\<close>.\<close>

definition getGlyph_fallback ::
  "FontEnv \<Rightarrow> int \<Rightarrow> int \<Rightarrow> 'm TextureFontPrivate \<Rightarrow> (Glyph \<times> 'm TextureFontPrivate) option" where
  "getGlyph_fallback env c fallback st =
     (case getGlyph env c st of
        None \<Rightarrow> None
      | Some (g, st1) \<Rightarrow> if ch g = c then Some (g, st1) else getGlyph env fallback st1)"

subsection \<open>Rendering and measuring\<close>

text \<open>
  Modelled from the spec: \<^verbatim>\<open>celutil/utf8.h\<close> is not among the sources.
  \<^verbatim>\<open>UTF8EncodedSize\<close> is the number of bytes of the (1 to 6 byte, legacy) UTF-8 form of
  a code point.  \<^verbatim>\<open>UTF8Decode(s, i, ch)\<close> is a parameter \<open>dec\<close> of the functions below:
  \<open>dec s i\<close> is \<open>None\<close> when it returns false and the code point it stores otherwise.
\<close>

definition UTF8EncodedSize :: "int \<Rightarrow> nat" where
  "UTF8EncodedSize c =
     (if c < 0x80 then 1
      else if c < 0x800 then 2
      else if c < 0x10000 then 3
      else if c < 0x200000 then 4
      else if c < 0x4000000 then 5
      else 6)"

text \<open>The four corners that one glyph appends to \<open>m_fontVertices\<close>.\<close>

definition glyph_quad ::
  "float \<Rightarrow> float \<Rightarrow> float \<Rightarrow> float \<Rightarrow> float \<Rightarrow> float \<Rightarrow> float \<Rightarrow> float \<Rightarrow> FontVertex list" where
  "glyph_quad x1 y1 x2 y2 tx1 ty1 tx2 ty2 =
     [\<lparr>fv_x = x1, fv_y = y1, fv_u = tx1, fv_v = ty2\<rparr>,
      \<lparr>fv_x = x2, fv_y = y1, fv_u = tx2, fv_v = ty2\<rparr>,
      \<lparr>fv_x = x1, fv_y = y2, fv_u = tx1, fv_v = ty1\<rparr>,
      \<lparr>fv_x = x2, fv_y = y2, fv_u = tx2, fv_v = ty1\<rparr>]"

text \<open>The body of the loop of \<^verbatim>\<open>render(const string&, float, float)\<close> after the lookup.\<close>

definition render_glyph ::
  "Glyph \<Rightarrow> float \<Rightarrow> float \<Rightarrow> 'm TextureFontPrivate \<Rightarrow> 'm TextureFontPrivate" where
  "render_glyph g x y st =
     (let x1 = fadd x (float_of_int (bl g));
          y1 = fsub (fadd y (float_of_int (bt g))) (float_of_int (bh g));
          w = float_of_int (bw g);
          h = float_of_int (bh g);
          x2 = fadd x1 w;
          y2 = fadd y1 h
      in if bw g = 0 \<or> bh g = 0 then st
         else
           (let tx1 = tx g;
                ty1 = ty g;
                tx2 = fadd tx1 (fdiv w (float_of_int (m_texWidth st)));
                ty2 = fadd ty1 (fdiv h (float_of_int (m_texHeight st)))
            in st\<lparr>m_fontVertices := m_fontVertices st @ glyph_quad x1 y1 x2 y2 tx1 ty1 tx2 ty2\<rparr>))"

function render_loop ::
  "FontEnv \<Rightarrow> (string \<Rightarrow> nat \<Rightarrow> int option) \<Rightarrow> string \<Rightarrow> nat \<Rightarrow> float \<Rightarrow> float \<Rightarrow>
   'm TextureFontPrivate \<Rightarrow> (float \<times> 'm TextureFontPrivate) option" where
  "render_loop env dec s i x y st =
     (if i < length s then
        (case dec s i of
           None \<Rightarrow> Some (x, st)
         | Some c \<Rightarrow>
             (case getGlyph_fallback env c 0x3F st of
                None \<Rightarrow> None
              | Some (g, st1) \<Rightarrow>
                  render_loop env dec s (i + UTF8EncodedSize c)
                    (fadd x (float_of_int (ax g))) (fadd y (float_of_int (ay g)))
                    (render_glyph g x y st1)))
      else Some (x, st))"
  by pat_completeness auto
termination
  by (relation "measure (\<lambda>(env, dec, s, i, x, y, st). length s - i)")
     (auto simp: UTF8EncodedSize_def)

declare render_loop.simps [simp del]

text \<open>\<^verbatim>\<open>TextureFontPrivate::render(const string &s, float x, float y)\<close>.\<close>

definition render_string ::
  "FontEnv \<Rightarrow> (string \<Rightarrow> nat \<Rightarrow> int option) \<Rightarrow> string \<Rightarrow> float \<Rightarrow> float \<Rightarrow>
   'm TextureFontPrivate \<Rightarrow> (float \<times> 'm TextureFontPrivate) option" where
  "render_string env dec s x y st =
     (if m_texName st = 0 then Some (Finite 0, st)
      else render_loop env dec s 0 x y
             (st\<lparr>effects := effects st @ [GlBindTexture (m_texName st)]\<rparr>))"

text \<open>\<^verbatim>\<open>TextureFontPrivate::render(wchar_t ch, float xoffset, float yoffset)\<close>.\<close>

definition render_char ::
  "FontEnv \<Rightarrow> int \<Rightarrow> float \<Rightarrow> float \<Rightarrow> 'm TextureFontPrivate \<Rightarrow>
   (float \<times> 'm TextureFontPrivate) option" where
  "render_char env c xoff yoff st =
     (case getGlyph_fallback env c 0x3F st of
        None \<Rightarrow> None
      | Some (g, st1) \<Rightarrow>
          (let x1 = fadd xoff (float_of_int (bl g));
               y1 = fsub (fadd yoff (float_of_int (bt g))) (float_of_int (bh g));
               x2 = fadd x1 (float_of_int (bw g));
               y2 = fadd y1 (float_of_int (bh g));
               tx1 = tx g;
               ty1 = ty g;
               tx2 = fadd tx1 (fdiv (float_of_int (bw g)) (float_of_int (m_texWidth st1)));
               ty2 = fadd ty1 (fdiv (float_of_int (bh g)) (float_of_int (m_texHeight st1)))
           in Some (float_of_int (ax g),
                    st1\<lparr>m_fontVertices :=
                          m_fontVertices st1 @ glyph_quad x1 y1 x2 y2 tx1 ty1 tx2 ty2,
                        render_log := render_log st1 @ [(c, xoff, yoff)]\<rparr>)))"

function getWidth_loop ::
  "FontEnv \<Rightarrow> (string \<Rightarrow> nat \<Rightarrow> int option) \<Rightarrow> string \<Rightarrow> nat \<Rightarrow> int \<Rightarrow>
   'm TextureFontPrivate \<Rightarrow> (int \<times> 'm TextureFontPrivate) option" where
  "getWidth_loop env dec s i width st =
     (if i < length s then
        (case dec s i of
           None \<Rightarrow> Some (width, st)
         | Some c \<Rightarrow>
             (case getGlyph_fallback env c 0x3F st of
                None \<Rightarrow> None
              | Some (g, st1) \<Rightarrow>
                  getWidth_loop env dec s (i + UTF8EncodedSize c) (width + ax g) st1))
      else Some (width, st))"
  by pat_completeness auto
termination
  by (relation "measure (\<lambda>(env, dec, s, i, width, st). length s - i)")
     (auto simp: UTF8EncodedSize_def)

declare getWidth_loop.simps [simp del]

text \<open>
  \<^verbatim>\<open>TextureFont::getWidth(const string& s)\<close>.  The source adds the advances in an
  \<^verbatim>\<open>int\<close>, where signed overflow is undefined; the model keeps the exact sum.
\<close>

definition getWidth ::
  "FontEnv \<Rightarrow> (string \<Rightarrow> nat \<Rightarrow> int option) \<Rightarrow> string \<Rightarrow> 'm TextureFontPrivate \<Rightarrow>
   (int \<times> 'm TextureFontPrivate) option" where
  "getWidth env dec s st = getWidth_loop env dec s 0 0 st"

text \<open>
  The advances of the glyphs that the loop of \<^verbatim>\<open>getWidth\<close> looks up, in order: the
  loop again, collecting \<open>g.ax\<close> instead of adding it.
\<close>

function advances_loop ::
  "FontEnv \<Rightarrow> (string \<Rightarrow> nat \<Rightarrow> int option) \<Rightarrow> string \<Rightarrow> nat \<Rightarrow>
   'm TextureFontPrivate \<Rightarrow> int list option" where
  "advances_loop env dec s i st =
     (if i < length s then
        (case dec s i of
           None \<Rightarrow> Some []
         | Some c \<Rightarrow>
             (case getGlyph_fallback env c 0x3F st of
                None \<Rightarrow> None
              | Some (g, st1) \<Rightarrow>
                  map_option ((#) (ax g)) (advances_loop env dec s (i + UTF8EncodedSize c) st1)))
      else Some [])"
  by pat_completeness auto
termination
  by (relation "measure (\<lambda>(env, dec, s, i, st). length s - i)")
     (auto simp: UTF8EncodedSize_def)

declare advances_loop.simps [simp del]

text \<open>\<^verbatim>\<open>TextureFont::getHeight\<close> and \<^verbatim>\<open>TextureFont::getAdvance\<close> (which returns a \<^verbatim>\<open>short\<close>).\<close>

definition getHeight :: "'m TextureFontPrivate \<Rightarrow> int" where
  "getHeight st = m_maxAscent st + m_maxDescent st"

definition getAdvance ::
  "FontEnv \<Rightarrow> int \<Rightarrow> 'm TextureFontPrivate \<Rightarrow> (int \<times> 'm TextureFontPrivate) option" where
  "getAdvance env c st =
     (case getGlyph_fallback env c 0x3F st of
        None \<Rightarrow> None
      | Some (g, st1) \<Rightarrow> Some (sint (word_of_int (ax g) :: 16 word), st1))"

subsection \<open>Batching and shader state\<close>

text \<open>
  The index loop of \<^verbatim>\<open>flush\<close>.  \<open>index\<close> is an \<^verbatim>\<open>unsigned short\<close>: it and the values
  pushed wrap at 65536, and the bound is \<^verbatim>\<open>(unsigned short) m_fontVertices.size()\<close>.
  The loop need not end (a bound above 65532 is never reached by steps of 4), so
  not returning is the value \<open>None\<close>.
\<close>

partial_function (option) flush_loop :: "nat \<Rightarrow> nat \<Rightarrow> nat list \<Rightarrow> nat list option" where
  "flush_loop bound index indexes =
     (if index < bound
      then flush_loop bound ((index + 4) mod 65536)
             (indexes @ [(index + 0) mod 65536, (index + 1) mod 65536, (index + 2) mod 65536,
                         (index + 1) mod 65536, (index + 3) mod 65536, (index + 2) mod 65536])
      else Some indexes)"

declare flush_loop.simps [code]

definition flush_indexes :: "nat \<Rightarrow> nat list option" where
  "flush_indexes n = flush_loop (n mod 65536) 0 []"

text \<open>The calls of \<^verbatim>\<open>flush\<close> that submit the batch as one indexed draw.\<close>

definition flush_calls :: "FontVertex list \<Rightarrow> nat list \<Rightarrow> 'm effect list" where
  "flush_calls vertices indexes =
     [GlEnableVertexAttribArray, GlEnableVertexAttribArray,
      GlVertexAttribPointer, GlVertexAttribPointer,
      GlDrawElements vertices indexes,
      GlDisableVertexAttribArray, GlDisableVertexAttribArray]"

definition flush :: "'m TextureFontPrivate \<Rightarrow> 'm TextureFontPrivate option" where
  "flush st =
     (if length (m_fontVertices st) < 4 then Some st
      else
        (case flush_indexes (length (m_fontVertices st)) of
           None \<Rightarrow> None
         | Some indexes \<Rightarrow>
             Some (st\<lparr>effects := effects st @ flush_calls (m_fontVertices st) indexes,
                      m_fontVertices := []\<rparr>)))"

definition getProgram :: "FontEnv \<Rightarrow> 'm TextureFontPrivate \<Rightarrow> bool \<times> 'm TextureFontPrivate" where
  "getProgram env st =
     (if m_prog st then (True, st)
      else (getShader_text env, st\<lparr>m_prog := getShader_text env\<rparr>))"

definition bind :: "FontEnv \<Rightarrow> 'm TextureFontPrivate \<Rightarrow> 'm TextureFontPrivate" where
  "bind env st =
     (let (prog, st1) = getProgram env st in
      if \<not> prog then st1
      else if m_texName st1 \<noteq> 0 then
        st1\<lparr>effects := effects st1 @
               [GlActiveTexture, GlBindTexture (m_texName st1), ProgUse, SamplerParam,
                Mat4Param (m_MVP st1)],
            m_shaderInUse := True\<rparr>
      else st1)"

definition setMVPMatrix ::
  "FontEnv \<Rightarrow> 'm \<Rightarrow> 'm TextureFontPrivate \<Rightarrow> 'm TextureFontPrivate option" where
  "setMVPMatrix env mvp st =
     (let (prog, st1) = getProgram env (st\<lparr>m_MVP := mvp\<rparr>) in
      if prog \<and> m_shaderInUse st1 then
        (case flush st1 of
           None \<Rightarrow> None
         | Some st2 \<Rightarrow> Some (st2\<lparr>effects := effects st2 @ [Mat4Param mvp]\<rparr>))
      else Some st1)"

definition unbind :: "'m TextureFontPrivate \<Rightarrow> 'm TextureFontPrivate option" where
  "unbind st =
     (case flush st of
        None \<Rightarrow> None
      | Some st1 \<Rightarrow>
          Some (st1\<lparr>m_shaderInUse := False,
                    effects := effects st1 @ [GlActiveTexture, GlBindTexture 0, GlUseProgram0]\<rparr>))"


section \<open>The text overlay: \<^verbatim>\<open>celengine/overlay.cpp\<close>\<close>

text \<open>
  The members of \<^verbatim>\<open>class Overlay\<close> that the functions below use.  The overlay's
  \<^verbatim>\<open>font\<close> pointer is the font it points to (\<open>None\<close> when null); \<open>global_x\<close> and
  \<open>global_y\<close> are \<^verbatim>\<open>global.x\<close> and \<^verbatim>\<open>global.y\<close>.
\<close>

record 'm Overlay =
  windowWidth :: int
  windowHeight :: int
  font :: "'m TextureFontPrivate option"
  useTexture :: bool
  fontChanged :: bool
  textBlock :: int
  global_x :: float
  global_y :: float
  xoffset :: float
  yoffset :: float
  posStack :: "(float \<times> float) list"
  mvp :: 'm

definition savePos :: "'m Overlay \<Rightarrow> 'm Overlay" where
  "savePos ov = ov\<lparr>posStack := posStack ov @ [(global_x ov, global_y ov)]\<rparr>"

definition restorePos :: "'m Overlay \<Rightarrow> 'm Overlay" where
  "restorePos ov =
     (let ov1 = (if posStack ov \<noteq> []
                 then ov\<lparr>global_x := fst (last (posStack ov)),
                         global_y := snd (last (posStack ov)),
                         posStack := butlast (posStack ov)\<rparr>
                 else ov)
      in ov1\<lparr>xoffset := Finite 0, yoffset := Finite 0\<rparr>)"

definition moveBy :: "float \<Rightarrow> float \<Rightarrow> 'm Overlay \<Rightarrow> 'm Overlay" where
  "moveBy dx dy ov = ov\<lparr>global_x := fadd (global_x ov) dx, global_y := fadd (global_y ov) dy\<rparr>"

text \<open>The statements \<^verbatim>\<open>font->bind(); font->setMVPMatrix(mvp); useTexture = true; fontChanged = false;\<close>\<close>

definition bind_font ::
  "FontEnv \<Rightarrow> 'm TextureFontPrivate \<Rightarrow> 'm Overlay \<Rightarrow> 'm Overlay option" where
  "bind_font env f ov =
     (case setMVPMatrix env (mvp ov) (bind env f) of
        None \<Rightarrow> None
      | Some f1 \<Rightarrow> Some (ov\<lparr>font := Some f1, useTexture := True, fontChanged := False\<rparr>))"

definition beginText :: "FontEnv \<Rightarrow> 'm Overlay \<Rightarrow> 'm Overlay option" where
  "beginText env ov =
     (let ov1 = savePos ov;
          ov2 = ov1\<lparr>textBlock := textBlock ov1 + 1\<rparr>
      in case font ov2 of
           None \<Rightarrow> Some ov2
         | Some f \<Rightarrow> bind_font env f ov2)"

text \<open>
  \<^verbatim>\<open>Overlay::print(wchar_t c)\<close>; \<^verbatim>\<open>Overlay::print(char c)\<close> has the same body.
\<close>

definition print :: "FontEnv \<Rightarrow> int \<Rightarrow> 'm Overlay \<Rightarrow> 'm Overlay option" where
  "print env c ov =
     (case font ov of
        None \<Rightarrow> Some ov
      | Some f \<Rightarrow>
          (case (if \<not> useTexture ov \<or> fontChanged ov then bind_font env f ov else Some ov) of
             None \<Rightarrow> None
           | Some ov1 \<Rightarrow>
               (case font ov1 of
                  None \<Rightarrow> Some ov1
                | Some f1 \<Rightarrow>
                    if c = 10 then
                      (if textBlock ov1 > 0 then
                         (let ov2 = restorePos ov1;
                              ov3 = ov2\<lparr>global_y :=
                                         fsub (global_y ov2)
                                           (fadd (Finite 1) (float_of_int (getHeight f1)))\<rparr>
                          in Some (savePos ov3))
                       else Some ov1)
                    else
                      (case render_char env c (fadd (global_x ov1) (xoffset ov1))
                              (fadd (global_y ov1) (yoffset ov1)) f1 of
                         None \<Rightarrow> None
                       | Some (r, f2) \<Rightarrow>
                           (case getAdvance env c f2 of
                              None \<Rightarrow> None
                            | Some (adv, f3) \<Rightarrow>
                                Some (ov1\<lparr>xoffset := fadd (xoffset ov1) (float_of_int adv),
                                         font := Some f3\<rparr>))))))"

text \<open>Printing code points one after the other, as successive calls of \<^verbatim>\<open>print\<close> do.\<close>

fun print_all :: "FontEnv \<Rightarrow> int list \<Rightarrow> 'm Overlay \<Rightarrow> 'm Overlay option" where
  "print_all env [] ov = Some ov"
| "print_all env (c # cs) ov =
     (case print env c ov of None \<Rightarrow> None | Some ov1 \<Rightarrow> print_all env cs ov1)"


section \<open>The overlay's stream buffer\<close>

datatype UTF8DecodeState = UTF8DecodeStart | UTF8DecodeMultibyte

text \<open>
  \<^verbatim>\<open>class OverlayStreamBuf\<close>: \<open>overlay_set\<close> holds whether the \<^verbatim>\<open>overlay\<close> pointer is
  non-null; \<open>decodeShift\<close> is an \<^verbatim>\<open>unsigned int\<close>, whose subtraction wraps at \<open>2 ^ 32\<close>.
\<close>

record OverlayStreamBuf =
  overlay_set :: bool
  decodeState :: UTF8DecodeState
  decodedChar :: int
  decodeShift :: nat

text \<open>The conversion \<^verbatim>\<open>(char) c\<close> of an \<^verbatim>\<open>int\<close> (a signed 8-bit \<^verbatim>\<open>char\<close>).\<close>

definition char_cast :: "int \<Rightarrow> int" where
  "char_cast c = sint (word_of_int c :: 8 word)"

text \<open>
  \<^verbatim>\<open>OverlayStreamBuf::overflow(int c)\<close>: the value returned, the buffer afterwards, and
  the arguments of the calls of \<^verbatim>\<open>overlay->print\<close> it made (none or one).
\<close>

definition overflow :: "int \<Rightarrow> OverlayStreamBuf \<Rightarrow> int \<times> OverlayStreamBuf \<times> int list" where
  "overflow c sb =
     (if overlay_set sb then
        (case decodeState sb of
           UTF8DecodeStart \<Rightarrow>
             (if c < 0x80 then (c, sb, [char_cast c])
              else
                (let count :: nat =
                       (if c AND 0xe0 = 0xc0 then 2
                        else if c AND 0xf0 = 0xe0 then 3
                        else if c AND 0xf8 = 0xf0 then 4
                        else if c AND 0xfc = 0xf8 then 5
                        else if c AND 0xfe = 0xfc then 6
                        else 1)
                 in if count > 1 then
                      (let mask = push_bit (7 - count) 1 - 1;
                           shift = (count - 1) * 6
                       in (c, sb\<lparr>decodeShift := shift,
                                 decodedChar := push_bit shift (c AND mask),
                                 decodeState := UTF8DecodeMultibyte\<rparr>, []))
                    else (c, sb, [])))
         | UTF8DecodeMultibyte \<Rightarrow>
             (if c AND 0xc0 = 0x80 then
                (let shift = (if 6 \<le> decodeShift sb then decodeShift sb - 6
                              else decodeShift sb + 2 ^ 32 - 6);
                     d = decodedChar sb OR push_bit shift (c AND 0x3f);
                     sb1 = sb\<lparr>decodeShift := shift, decodedChar := d\<rparr>
                 in if shift = 0 then (c, sb1\<lparr>decodeState := UTF8DecodeStart\<rparr>, [d])
                    else (c, sb1, []))
              else (c, sb\<lparr>decodeState := UTF8DecodeStart\<rparr>, [])))
      else (c, sb, []))"

text \<open>
  Bytes written one at a time: the values returned, the buffer afterwards and all the
  calls of \<^verbatim>\<open>print\<close>.
\<close>

fun overflow_all :: "int list \<Rightarrow> OverlayStreamBuf \<Rightarrow> int list \<times> OverlayStreamBuf \<times> int list" where
  "overflow_all [] sb = ([], sb, [])"
| "overflow_all (c # cs) sb =
     (let (r, sb1, ps) = overflow c sb;
          (rs, sb2, qs) = overflow_all cs sb1
      in (r # rs, sb2, ps @ qs))"

text \<open>
  The claim's words for a legacy UTF-8 sequence: a head byte that announces \<open>n\<close> bytes
  (\<open>0xxxxxxx\<close> for one, \<open>n\<close> leading ones and a zero for two to six) followed by
  \<open>n - 1\<close> continuation bytes \<open>10xxxxxx\<close>; its code point is the head's payload bits
  followed by the six payload bits of each continuation byte.
\<close>

definition utf8_head_len :: "int \<Rightarrow> nat" where
  "utf8_head_len b =
     (if 0 \<le> b \<and> b < 0x80 then 1
      else if 0xC0 \<le> b \<and> b < 0xE0 then 2
      else if 0xE0 \<le> b \<and> b < 0xF0 then 3
      else if 0xF0 \<le> b \<and> b < 0xF8 then 4
      else if 0xF8 \<le> b \<and> b < 0xFC then 5
      else if 0xFC \<le> b \<and> b < 0xFE then 6
      else 0)"

definition utf8_continuation :: "int \<Rightarrow> bool" where
  "utf8_continuation b = (0x80 \<le> b \<and> b < 0xC0)"

definition utf8_sequence :: "int list \<Rightarrow> bool" where
  "utf8_sequence bs =
     (case bs of
        [] \<Rightarrow> False
      | b # cs \<Rightarrow> utf8_head_len b = length bs \<and> list_all utf8_continuation cs)"

definition utf8_code_point :: "int list \<Rightarrow> int" where
  "utf8_code_point bs =
     (case bs of
        [] \<Rightarrow> 0
      | b # cs \<Rightarrow>
          foldl (\<lambda>a k. a * 64 + k mod 64)
            (if utf8_head_len b = 1 then b else b mod 2 ^ (7 - utf8_head_len b)) cs)"


section \<open>The view frustum\<close>

text \<open>\<^verbatim>\<open>enum Aspect\<close> and the plane indices of \<^verbatim>\<open>celmath/frustum.h\<close>.\<close>

datatype Aspect = Outside | Inside | Intersect

definition Bottom :: nat where "Bottom = 0"
definition Top :: nat where "Top = 1"
definition Left :: nat where "Left = 2"
definition Right :: nat where "Right = 3"
definition Near :: nat where "Near = 4"
definition Far :: nat where "Far = 5"

text \<open>
  \<^verbatim>\<open>Eigen::Hyperplane<double, 3>\<close>: a unit normal and an offset; the signed distance of
  a point is the inner product with the normal plus the offset.
\<close>

type_synonym vec3 = "real \<times> real \<times> real"

record plane =
  normal :: vec3
  offset :: real

definition signedDistance :: "plane \<Rightarrow> vec3 \<Rightarrow> real" where
  "signedDistance p c =
     (case (normal p, c) of ((a, b, d), (x, y, z)) \<Rightarrow> a * x + b * y + d * z + offset p)"

text \<open>
  Modelled from the spec: \<^verbatim>\<open>Frustum::testSphere\<close> is declared in
  \<^verbatim>\<open>celmath/frustum.h\<close> and its body is not among the sources.  The spec: Outside if
  the distance is below minus the radius for any plane, with an early exit on the
  first such plane; Intersect if the absolute distance is at most the radius for any
  plane and no plane yields Outside; else Inside.
\<close>

fun testSphere_loop :: "plane list \<Rightarrow> vec3 \<Rightarrow> real \<Rightarrow> bool \<Rightarrow> Aspect" where
  "testSphere_loop [] center radius hit = (if hit then Intersect else Inside)"
| "testSphere_loop (p # ps) center radius hit =
     (if signedDistance p center < - radius then Outside
      else testSphere_loop ps center radius (hit \<or> \<bar>signedDistance p center\<bar> \<le> radius))"

definition testSphere :: "plane list \<Rightarrow> vec3 \<Rightarrow> real \<Rightarrow> Aspect" where
  "testSphere planes center radius = testSphere_loop planes center radius False"


section \<open>Auxiliary notions of the statements\<close>

text \<open>The six indices of the two triangles of the quad that starts at vertex \<open>k\<close>.\<close>

definition quad_indexes :: "nat \<Rightarrow> nat list" where
  "quad_indexes k = [k, k + 1, k + 2, k + 1, k + 3, k + 2]"


text \<open>
  A font whose glyph table holds the pre-loaded common blocks (as after \<^verbatim>\<open>buildAtlas\<close>),
  with the cached count of common glyphs unset or set.
\<close>


definition font_ready :: "'m TextureFontPrivate \<Rightarrow> bool" where
  "font_ready st \<longleftrightarrow>
     length common_chars \<le> length (m_glyphs st) \<and>
     (m_commonGlyphsCount st = 0 \<or> m_commonGlyphsCount st = int (length common_chars))"

text \<open>
  Every glyph that is not marked bad is one the face loads, with the bitmap size stored.
\<close>

definition glyphs_consistent :: "FontEnv \<Rightarrow> Glyph list \<Rightarrow> bool" where
  "glyphs_consistent env gs \<longleftrightarrow>
     list_all (\<lambda>g. ch g = 0 \<or>
       (case FT_Load_Char env (ch g) of
          None \<Rightarrow> False
        | Some s \<Rightarrow> bw g = int (bitmap_width s) \<and> bh g = int (bitmap_rows s))) gs"

text \<open>The members that looking up and loading glyphs leave alone.\<close>

definition font_frame :: "'m TextureFontPrivate \<Rightarrow> 'm TextureFontPrivate \<Rightarrow> bool" where
  "font_frame st st' \<longleftrightarrow>
     m_fontVertices st' = m_fontVertices st \<and> render_log st' = render_log st \<and>
     m_maxAscent st' = m_maxAscent st \<and> m_maxDescent st' = m_maxDescent st \<and>
     m_prog st' = m_prog st \<and> m_shaderInUse st' = m_shaderInUse st \<and>
     m_MVP st' = m_MVP st \<and> m_maxTextureSize st' = m_maxTextureSize st"


text \<open>An overlay whose font is set, loaded, and holds whole quads.\<close>

definition overlay_ready :: "'m Overlay \<Rightarrow> bool" where
  "overlay_ready ov \<longleftrightarrow>
     (case font ov of
        None \<Rightarrow> False
      | Some f \<Rightarrow> font_ready f \<and> length (m_fontVertices f) mod 4 = 0)"

text \<open>What printing can observe and must keep: the log of render calls and the line height.\<close>

definition overlay_log :: "'m Overlay \<Rightarrow> (int \<times> float \<times> float) list" where
  "overlay_log ov = (case font ov of None \<Rightarrow> [] | Some f \<Rightarrow> render_log f)"

definition overlay_height :: "'m Overlay \<Rightarrow> int" where
  "overlay_height ov = (case font ov of None \<Rightarrow> 0 | Some f \<Rightarrow> getHeight f)"


text \<open>
  Two fonts that differ at most in the pending vertices and in the logs: glyph lookup
  neither reads nor depends on these.
\<close>

definition same_font :: "'m TextureFontPrivate \<Rightarrow> 'm TextureFontPrivate \<Rightarrow> bool" where
  "same_font st st' \<longleftrightarrow>
     m_prog st' = m_prog st \<and> m_maxAscent st' = m_maxAscent st \<and>
     m_maxDescent st' = m_maxDescent st \<and> m_maxWidth st' = m_maxWidth st \<and>
     m_texWidth st' = m_texWidth st \<and> m_texHeight st' = m_texHeight st \<and>
     m_texName st' = m_texName st \<and> m_glyphs st' = m_glyphs st \<and>
     m_maxTextureSize st' = m_maxTextureSize st \<and>
     m_commonGlyphsCount st' = m_commonGlyphsCount st \<and> m_inserted st' = m_inserted st \<and>
     m_MVP st' = m_MVP st \<and> m_shaderInUse st' = m_shaderInUse st \<and>
     gl_gen_count st' = gl_gen_count st"

text \<open>The pen after adding the advances one at a time, each sum rounded to single precision.\<close>

definition pen_after :: "float \<Rightarrow> int list \<Rightarrow> float" where
  "pen_after x as = foldl (\<lambda>p a. fadd p (float_of_int a)) x as"


section \<open>Example inputs\<close>

text \<open>
  A face whose glyphs all have a 9 pixel advance and a 7 by 10 bitmap, and that has no
  glyph for U+0000 and U+263A; a font object before its atlas is built (the transform
  is a tag), and the font that \<^verbatim>\<open>buildAtlas\<close> makes of it.
\<close>


definition example_slot :: FT_GlyphSlot where
  "example_slot = \<lparr>advance_x = 576, advance_y = 0, bitmap_width = 7, bitmap_rows = 10,
                    bitmap_left = 1, bitmap_top = 10\<rparr>"

definition example_env :: FontEnv where
  "example_env =
     \<lparr>FT_Load_Char = (\<lambda>c. if c = 0 \<or> c = 0x263A then None else Some example_slot),
      glGenTextures = (\<lambda>k. Suc k),
      getShader_text = True,
      uninit_Glyph = \<lparr>ch = 77, ax = 5, ay = 5, bw = 5, bh = 5, bl = 5, bt = 5,
                       tx = NonFinite, ty = NonFinite\<rparr>\<rparr>"

definition example_new_font :: "nat TextureFontPrivate" where
  "example_new_font =
     \<lparr>m_prog = False, m_maxAscent = 12, m_maxDescent = 3, m_maxWidth = 0,
      m_texWidth = 0, m_texHeight = 0, m_texName = 0, m_glyphs = [],
      m_maxTextureSize = 256, m_commonGlyphsCount = 0, m_inserted = 0, m_MVP = 0,
      m_shaderInUse = False, m_fontVertices = [], effects = [], gl_gen_count = 0,
      render_log = []\<rparr>"

definition example_font :: "nat TextureFontPrivate" where
  "example_font = snd (buildAtlas example_env example_new_font)"


text \<open>A decoder for the one-byte sequences of UTF-8, and the example font with the quad of an \<open>A\<close> pending.\<close>

definition example_decode :: "string \<Rightarrow> nat \<Rightarrow> int option" where
  "example_decode s i =
     (if i < length s \<and> (of_char (s ! i) :: int) < 0x80 then Some (of_char (s ! i)) else None)"

definition example_font_A :: "nat TextureFontPrivate" where
  "example_font_A =
     (case render_char example_env 0x41 (Finite 0) (Finite 0) example_font of
        Some (r, st) \<Rightarrow> st | None \<Rightarrow> example_font)"


text \<open>A stream buffer in its start state, and the one that has taken the head byte \<open>0xC3\<close>.\<close>

definition example_streambuf :: OverlayStreamBuf where
  "example_streambuf =
     \<lparr>overlay_set = True, decodeState = UTF8DecodeStart, decodedChar = 0, decodeShift = 0\<rparr>"

definition example_streambuf_mid :: OverlayStreamBuf where
  "example_streambuf_mid = fst (snd (overflow 0xC3 example_streambuf))"


text \<open>
  The apex of the view pyramid is the camera position: the point that lies on the
  bottom, top, left and right planes.
\<close>

definition at_apex :: "plane list \<Rightarrow> vec3 \<Rightarrow> bool" where
  "at_apex planes a \<longleftrightarrow>
     list_all (\<lambda>i. i < length planes \<and> signedDistance (planes ! i) a = 0)
       [Bottom, Top, Left, Right]"

text \<open>
  A frustum looking down the negative z axis from the origin, with half-angle
  \<open>arctan (4/3)\<close> in both directions, near distance 1 and far distance 1000; the planes
  in the order Bottom, Top, Left, Right, Near, Far, normals pointing inward.
\<close>

definition example_frustum :: "plane list" where
  "example_frustum =
     [\<lparr>normal = (0, 4/5, - 3/5), offset = 0\<rparr>,
      \<lparr>normal = (0, - 4/5, - 3/5), offset = 0\<rparr>,
      \<lparr>normal = (4/5, 0, - 3/5), offset = 0\<rparr>,
      \<lparr>normal = (- 4/5, 0, - 3/5), offset = 0\<rparr>,
      \<lparr>normal = (0, 0, - 1), offset = - 1\<rparr>,
      \<lparr>normal = (0, 0, 1), offset = 1000\<rparr>]"


text \<open>
  The rows of the shelf packer, as \<^verbatim>\<open>computeTextureSize\<close> forms them: the glyphs that are
  not marked bad, in order, a new row begun where the source's test
  \<^verbatim>\<open>roww + c.bw + 1 >= m_maxTextureSize\<close> holds.  The width of a row is the sum of its
  glyphs' widths plus one pixel each, its height the largest bitmap height (at least 0).
\<close>

definition row_width :: "Glyph list \<Rightarrow> int" where
  "row_width r = sum_list (map (\<lambda>g. bw g + 1) r)"

definition row_height :: "Glyph list \<Rightarrow> int" where
  "row_height r = foldl max 0 (map bh r)"

fun shelf_rows :: "int \<Rightarrow> Glyph list \<Rightarrow> Glyph list \<Rightarrow> Glyph list list" where
  "shelf_rows maxTex [] cur = [cur]"
| "shelf_rows maxTex (c # cs) cur =
     (if ch c = 0 then shelf_rows maxTex cs cur
      else if row_width cur + bw c + 1 \<ge> maxTex then cur # shelf_rows maxTex cs [c]
      else shelf_rows maxTex cs (cur @ [c]))"

text \<open>A \<^verbatim>\<open>glTexSubImage2D\<close> that stays within the width \<open>w\<close>.\<close>

definition placement_within :: "int \<Rightarrow> 'm effect \<Rightarrow> bool" where
  "placement_within w e =
     (case e of GlTexSubImage2D ox oy wd ht \<Rightarrow> 0 \<le> ox \<and> ox + int wd \<le> w | _ \<Rightarrow> True)"


text \<open>
  A face whose bitmaps are 100 pixels wide, and the font built from it when the device
  allows textures of at most 64 pixels.
\<close>

definition example_wide_env :: FontEnv where
  "example_wide_env =
     example_env\<lparr>FT_Load_Char := (\<lambda>c. Some (example_slot\<lparr>bitmap_width := 100\<rparr>))\<rparr>"

definition example_wide_font :: "nat TextureFontPrivate" where
  "example_wide_font =
     snd (buildAtlas example_wide_env (example_new_font\<lparr>m_maxTextureSize := 64\<rparr>))"


text \<open>The advance and bitmap metrics of a glyph record.\<close>

definition metrics :: "Glyph \<Rightarrow> int \<times> int \<times> int \<times> int \<times> int \<times> int" where
  "metrics g = (ax g, ay g, bw g, bh g, bl g, bt g)"


text \<open>The example face without a glyph for the fallback \<open>?\<close>, and its font.\<close>

definition example_env_no_fallback :: FontEnv where
  "example_env_no_fallback =
     example_env\<lparr>FT_Load_Char :=
       (\<lambda>c. if c = 0x3F \<or> c = 0x263A then None else Some example_slot)\<rparr>"

definition example_font_no_fallback :: "nat TextureFontPrivate" where
  "example_font_no_fallback = snd (buildAtlas example_env_no_fallback example_new_font)"


text \<open>An overlay at cursor (10, 10) with the example font, outside any text block.\<close>

definition example_overlay :: "nat Overlay" where
  "example_overlay =
     \<lparr>windowWidth = 640, windowHeight = 480, font = Some example_font,
      useTexture = False, fontChanged = False, textBlock = 0,
      global_x = Finite 10, global_y = Finite 10,
      xoffset = Finite 0, yoffset = Finite 0, posStack = [], mvp = 0\<rparr>"


section \<open>Properties\<close>

subsection \<open>Rounding\<close>

lemma ilog2_bounds:
  assumes "r \<noteq> 0"
  shows "2 powi ilog2 r \<le> \<bar>r\<bar> \<and> \<bar>r\<bar> < 2 powi (ilog2 r + 1)"
proof (cases "1 \<le> \<bar>r\<bar>")
  case True
  define n where "n = \<lfloor>\<bar>r\<bar>\<rfloor>"
  have n1: "1 \<le> n" using True by (simp add: n_def le_floor_iff)
  then have n0: "0 < n" by simp
  have b: "2 ^ nat (bitlen n - 1) \<le> n" "n < 2 ^ nat (bitlen n)"
    using bitlen_bounds[OF n0] by auto
  have bl: "1 \<le> bitlen n" using n0 bitlen_ge_iff_power[of 1 n] by simp
  have il: "ilog2 r = bitlen n - 1" using True by (simp add: ilog2_def n_def)
  have "real_of_int (2 ^ nat (bitlen n - 1)) \<le> real_of_int n" using b(1) by linarith
  also have "\<dots> \<le> \<bar>r\<bar>" by (simp add: n_def)
  finally have lo: "2 powi (bitlen n - 1) \<le> \<bar>r\<bar>"
    using bl by (simp add: power_int_def)
  have "n + 1 \<le> 2 ^ nat (bitlen n)" using b(2) by simp
  then have "real_of_int (n + 1) \<le> real_of_int (2 ^ nat (bitlen n))" by linarith
  moreover have "\<bar>r\<bar> < real_of_int (n + 1)" by (simp add: n_def)
  ultimately have hi: "\<bar>r\<bar> < 2 powi (bitlen n)"
    using bl by (simp add: power_int_def)
  show ?thesis using lo hi il by simp
next
  case False
  then have r1: "\<bar>r\<bar> < 1" by simp
  have rpos: "0 < \<bar>r\<bar>" using assms by simp
  define q where "q = 1 / \<bar>r\<bar>"
  have q1: "1 < q" using r1 rpos by (simp add: q_def)
  define c where "c = \<lceil>q\<rceil>"
  have c2: "2 \<le> c" using q1 by (simp add: c_def)
  then have c0: "0 < c - 1" by simp
  define b where "b = bitlen (c - 1)"
  have bb: "2 ^ nat (b - 1) \<le> c - 1" "c - 1 < 2 ^ nat b"
    using bitlen_bounds[OF c0] by (auto simp: b_def)
  have bl: "1 \<le> b" using c0 bitlen_ge_iff_power[of 1 "c - 1"] by (simp add: b_def)
  have il: "ilog2 r = - b" using False by (simp add: ilog2_def b_def c_def q_def)
  have "c \<le> 2 ^ nat b" using bb(2) by simp
  then have "real_of_int c \<le> real_of_int (2 ^ nat b)" by linarith
  then have "real_of_int c \<le> 2 ^ nat b" by simp
  moreover have "q \<le> real_of_int c" by (simp add: c_def)
  ultimately have qhi: "q \<le> 2 ^ nat b" by linarith
  have "real_of_int (2 ^ nat (b - 1)) \<le> real_of_int (c - 1)" using bb(1) by linarith
  then have "2 ^ nat (b - 1) \<le> real_of_int c - 1" by simp
  moreover have "real_of_int c - 1 < q" unfolding c_def by linarith
  ultimately have qlo: "2 ^ nat (b - 1) < q" by linarith
  have p1: "(2::real) powi (- b) = 1 / 2 ^ nat b"
    using bl by (simp add: power_int_def field_simps)
  have p2: "(2::real) powi (- b + 1) = 1 / 2 ^ nat (b - 1)"
    using bl by (auto simp add: power_int_def field_simps nat_diff_distrib)
  have "1 / 2 ^ nat b \<le> \<bar>r\<bar>"
    using qhi rpos by (simp add: q_def field_simps)
  moreover have "\<bar>r\<bar> < 1 / 2 ^ nat (b - 1)"
    using qlo rpos by (simp add: q_def field_simps)
  ultimately show ?thesis using il p1 p2 by simp
qed

lemma ilog2_eqI:
  assumes "2 powi k \<le> \<bar>r\<bar>" and "\<bar>r\<bar> < 2 powi (k + 1)"
  shows "ilog2 r = k"
proof -
  have "(0::real) < 2 powi k" by (simp add: zero_less_power_int)
  then have "(0::real) < \<bar>r\<bar>" using assms(1) by linarith
  then have r0: "r \<noteq> 0" by auto
  define j where "j = ilog2 r"
  have jb: "2 powi j \<le> \<bar>r\<bar>" "\<bar>r\<bar> < 2 powi (j + 1)"
    using ilog2_bounds[OF r0] by (auto simp: j_def)
  have "\<not> j < k"
  proof
    assume "j < k"
    then have "j + 1 \<le> k" by simp
    then have "(2::real) powi (j + 1) \<le> 2 powi k" by (rule power_int_increasing) simp
    then show False using jb(2) assms(1) by linarith
  qed
  moreover have "\<not> k < j"
  proof
    assume "k < j"
    then have "k + 1 \<le> j" by simp
    then have "(2::real) powi (k + 1) \<le> 2 powi j" by (rule power_int_increasing) simp
    then show False using jb(1) assms(2) by linarith
  qed
  ultimately show ?thesis by (simp add: j_def)
qed

lemma round_ties_even_of_int [simp]: "round_ties_even (of_int k) = k"
  by (simp add: round_ties_even_def)

lemma round_ties_even_ge:
  assumes "of_int N \<le> x" shows "N \<le> round_ties_even x"
proof -
  have "N \<le> \<lfloor>x\<rfloor>" using assms by (simp add: le_floor_iff)
  then show ?thesis by (simp add: round_ties_even_def Let_def)
qed

lemma round_ties_even_le:
  assumes "x \<le> of_int N" shows "round_ties_even x \<le> N"
proof (cases "x = of_int N")
  case True then show ?thesis by simp
next
  case False
  then have "x < of_int N" using assms by simp
  then have "\<lfloor>x\<rfloor> < N" by (simp add: floor_less_iff)
  then show ?thesis by (auto simp: round_ties_even_def Let_def)
qed

lemma rnd32_fixI:
  assumes "v / 2 powi float_exp v = of_int k"
  shows "rnd32 v = v"
proof (cases "v = 0")
  case True then show ?thesis by (simp add: rnd32_def)
next
  case False
  have "rnd32 v = of_int k * 2 powi float_exp v"
    using False assms by (simp add: rnd32_def)
  also have "\<dots> = v / 2 powi float_exp v * 2 powi float_exp v"
    using assms by simp
  also have "\<dots> = v" by simp
  finally show ?thesis .
qed


lemma float_exp_ge: "- 149 \<le> float_exp r"
  by (simp add: float_exp_def)

lemma rnd32_repr:
  assumes e: "- 149 \<le> e" and m: "\<bar>m\<bar> \<le> 2 ^ 24"
    and n: "2 ^ 23 \<le> \<bar>m\<bar> \<or> e = - 149"
  shows "rnd32 (of_int m * 2 powi e) = of_int m * 2 powi e"
proof -
  define v :: real where "v = of_int m * 2 powi e"
  have pe: "(0::real) < 2 powi e" by (simp add: zero_less_power_int)
  have av: "\<bar>v\<bar> = of_int \<bar>m\<bar> * 2 powi e"
    using pe by (simp add: v_def abs_mult)
  consider (zero) "m = 0" | (top) "\<bar>m\<bar> = 2 ^ 24" | (norm) "2 ^ 23 \<le> \<bar>m\<bar>" "\<bar>m\<bar> < 2 ^ 24"
    | (sub) "m \<noteq> 0" "\<bar>m\<bar> < 2 ^ 23" "e = - 149"
    using m n by linarith
  then have "rnd32 v = v"
  proof cases
    case zero
    then show ?thesis by (simp add: v_def rnd32_def)
  next
    case top
    have "\<bar>v\<bar> = 2 powi (e + 24)"
      using top av by (simp add: power_int_add)
    then have "ilog2 v = e + 24"
      by (intro ilog2_eqI) (simp_all add: power_int_add)
    then have fe: "float_exp v = e + 1" using e by (simp add: float_exp_def)
    have "m = 16777216 \<or> m = - 16777216" using top by (simp add: abs_if split: if_splits)
    then have "even m" by auto
    then obtain k where k: "m = 2 * k" by (elim evenE)
    have "v / 2 powi (e + 1) = of_int k"
      using pe by (simp add: v_def k power_int_add)
    then have "v / 2 powi float_exp v = of_int k" by (simp only: fe)
    then show ?thesis by (rule rnd32_fixI)
  next
    case norm
    have lo: "2 powi (e + 23) \<le> \<bar>v\<bar>"
    proof -
      have "(2::real) ^ 23 \<le> of_int \<bar>m\<bar>" using norm(1) by simp
      then have "(2::real) ^ 23 * 2 powi e \<le> of_int \<bar>m\<bar> * 2 powi e"
        using pe by (simp add: mult_right_mono)
      then show ?thesis by (simp add: av power_int_add mult.commute)
    qed
    have hi: "\<bar>v\<bar> < 2 powi (e + 23 + 1)"
    proof -
      have "of_int \<bar>m\<bar> < (2::real) ^ 24" using norm(2) by simp
      then have "of_int \<bar>m\<bar> * 2 powi e < (2::real) ^ 24 * 2 powi e"
        using pe by (simp add: mult_strict_right_mono)
      then show ?thesis by (simp add: av power_int_add mult.commute)
    qed
    have "ilog2 v = e + 23" using lo hi by (rule ilog2_eqI)
    then have fe: "float_exp v = e" using e by (simp add: float_exp_def)
    have "v / 2 powi e = of_int m"
      using pe by (simp add: v_def)
    then have "v / 2 powi float_exp v = of_int m" by (simp only: fe)
    then show ?thesis by (rule rnd32_fixI)
  next
    case sub
    have v0: "v \<noteq> 0" using sub(1) pe by (simp add: v_def)
    have "of_int \<bar>m\<bar> < (2::real) ^ 23" using sub(2) by simp
    then have "of_int \<bar>m\<bar> * 2 powi e < (2::real) ^ 23 * 2 powi e"
      using pe by (simp add: mult_strict_right_mono)
    then have "\<bar>v\<bar> < 2 powi (e + 23)" by (simp add: av power_int_add mult.commute)
    moreover have "2 powi ilog2 v \<le> \<bar>v\<bar>" using ilog2_bounds[OF v0] by simp
    ultimately have "(2::real) powi ilog2 v < 2 powi (e + 23)" by linarith
    then have "ilog2 v < e + 23"
      by (metis not_less power_int_increasing one_le_numeral not_le)
    then have fe: "float_exp v = e" using sub(3) by (simp add: float_exp_def)
    have "v / 2 powi e = of_int m"
      using pe by (simp add: v_def)
    then have "v / 2 powi float_exp v = of_int m" by (simp only: fe)
    then show ?thesis by (rule rnd32_fixI)
  qed
  then show ?thesis by (simp add: v_def)
qed


lemma powi_less_imp_less:
  assumes "(2::real) powi a < 2 powi b" shows "a < b"
  using assms by (metis not_less power_int_increasing one_le_numeral not_le)

lemma rnd32_idem: "rnd32 (rnd32 r) = rnd32 r"
proof (cases "r = 0")
  case True then show ?thesis by (simp add: rnd32_def)
next
  case False
  define e where "e = float_exp r"
  define x where "x = r / 2 powi e"
  define m where "m = round_ties_even x"
  have pe: "(0::real) < 2 powi e" by (simp add: zero_less_power_int)
  have rr: "rnd32 r = of_int m * 2 powi e"
    using False by (simp add: rnd32_def m_def x_def e_def)
  have e149: "- 149 \<le> e" by (simp add: e_def float_exp_def)
  have ege: "ilog2 r - 23 \<le> e" by (simp add: e_def float_exp_def)
  have ax: "\<bar>x\<bar> = \<bar>r\<bar> / 2 powi e" using pe by (simp add: x_def)
  have "\<bar>r\<bar> < 2 powi (ilog2 r + 1)" using ilog2_bounds[OF False] by simp
  also have "\<dots> \<le> 2 powi (e + 24)" using ege by (intro power_int_increasing) simp_all
  finally have "\<bar>r\<bar> < 2 ^ 24 * 2 powi e" by (simp add: power_int_add mult.commute)
  then have xlt: "\<bar>x\<bar> < 2 ^ 24" using pe by (simp add: ax field_simps)
  have "x \<le> of_int (2 ^ 24)" "of_int (- (2 ^ 24)) \<le> x" using xlt by simp_all
  then have "m \<le> 2 ^ 24" "- (2 ^ 24) \<le> m"
    unfolding m_def by (blast intro: round_ties_even_le round_ties_even_ge)+
  then have mb: "\<bar>m\<bar> \<le> 2 ^ 24" by simp
  have mn: "2 ^ 23 \<le> \<bar>m\<bar> \<or> e = - 149"
  proof (cases "e = - 149")
    case True then show ?thesis by simp
  next
    case ne: False
    then have ee: "e = ilog2 r - 23" by (simp add: e_def float_exp_def max_def split: if_splits)
    have "2 powi (e + 23) \<le> \<bar>r\<bar>" using ilog2_bounds[OF False] by (simp add: ee)
    then have "2 ^ 23 * 2 powi e \<le> \<bar>r\<bar>" by (simp add: power_int_add mult.commute)
    then have xge: "2 ^ 23 \<le> \<bar>x\<bar>" using pe by (simp add: ax field_simps)
    show ?thesis
    proof (cases "0 \<le> x")
      case True
      then have "of_int (2 ^ 23) \<le> x" using xge by simp
      then have "2 ^ 23 \<le> m" unfolding m_def by (rule round_ties_even_ge)
      then show ?thesis by simp
    next
      case False
      then have "x \<le> of_int (- (2 ^ 23))" using xge by simp
      then have "m \<le> - (2 ^ 23)" unfolding m_def by (rule round_ties_even_le)
      then show ?thesis by simp
    qed
  qed
  show ?thesis unfolding rr using e149 mb mn by (rule rnd32_repr)
qed

lemma rnd32_of_int:
  assumes "\<bar>n\<bar> \<le> 2 ^ 24"
  shows "rnd32 (of_int n) = of_int n"
proof (cases "2 ^ 23 \<le> \<bar>n\<bar>")
  case True
  then show ?thesis using rnd32_repr[of 0 n] assms by simp
next
  case False
  show ?thesis
  proof (cases "n = 0")
    case True then show ?thesis by (simp add: rnd32_def)
  next
    case n0: False
    define v :: real where "v = of_int n"
    have v0: "v \<noteq> 0" using n0 by (simp add: v_def)
    have "\<bar>v\<bar> < 2 powi 23" using False by (simp add: v_def)
    moreover have "2 powi ilog2 v \<le> \<bar>v\<bar>" using ilog2_bounds[OF v0] by simp
    ultimately have "(2::real) powi ilog2 v < 2 powi 23" by linarith
    then have "ilog2 v < 23" by (rule powi_less_imp_less)
    then have "float_exp v \<le> 0" by (simp add: float_exp_def)
    then obtain k where k: "float_exp v = - int k"
      by (metis nonpos_int_cases)
    have "(2::real) powi (- int k) = 1 / 2 ^ k"
      by (simp add: power_int_minus field_simps)
    then have "v / 2 powi (- int k) = of_int (n * 2 ^ k)"
      by (simp add: v_def)
    then have "v / 2 powi float_exp v = of_int (n * 2 ^ k)"
      by (simp only: k)
    then have "rnd32 v = v" by (rule rnd32_fixI)
    then show ?thesis by (simp add: v_def)
  qed
qed

lemma FLT_MAX_ge: "2 ^ 24 \<le> FLT_MAX"
  by (simp add: FLT_MAX_def)

lemma mk_float_of_int:
  "\<bar>n\<bar> \<le> 2 ^ 24 \<Longrightarrow> mk_float (of_int n) = Finite (of_int n)"
proof -
  assume a: "\<bar>n\<bar> \<le> 2 ^ 24"
  then have "\<bar>real_of_int n\<bar> \<le> 2 ^ 24" by (metis of_int_abs of_int_le_numeral_power_cancel_iff)
  then have "\<bar>real_of_int n\<bar> \<le> FLT_MAX" using FLT_MAX_ge by linarith
  then show ?thesis using a by (simp add: mk_float_def rnd32_of_int)
qed

subsection \<open>The index loop of flush\<close>

lemma flush_loop_multiple:
  "index + 4 * n = bound \<Longrightarrow> bound < 65536 \<Longrightarrow>
   flush_loop bound index acc =
     Some (acc @ concat (map (\<lambda>j. quad_indexes (index + 4 * j)) [0..<n]))"
proof (induction n arbitrary: index acc)
  case 0
  then show ?case by (subst flush_loop.simps) simp
next
  case (Suc n)
  have lt: "index < bound" using Suc.prems by simp
  have small: "index + 4 < 65536" "index + 3 < 65536" using Suc.prems by simp_all
  have step: "flush_loop bound index acc =
      flush_loop bound (index + 4) (acc @ quad_indexes index)"
    using lt small by (subst flush_loop.simps) (simp add: quad_indexes_def)
  have ih: "flush_loop bound (index + 4) (acc @ quad_indexes index) =
      Some ((acc @ quad_indexes index) @
        concat (map (\<lambda>j. quad_indexes (index + 4 + 4 * j)) [0..<n]))"
    using Suc.prems by (intro Suc.IH) simp_all
  have "concat (map (\<lambda>j. quad_indexes (index + 4 * j)) [0..<Suc n]) =
      quad_indexes index @ concat (map (\<lambda>j. quad_indexes (index + 4 + 4 * j)) [0..<n])"
    by (simp add: upt_conv_Cons map_Suc_upt [symmetric] comp_def add.assoc del: upt_Suc)
  then show ?case using step ih by simp
qed

lemma flush_indexes_multiple:
  assumes "n mod 4 = 0"
  shows "flush_indexes n =
    Some (concat (map (\<lambda>j. quad_indexes (4 * j)) [0..<(n mod 65536) div 4]))"
proof -
  define m where "m = n mod 65536"
  have "m mod 4 = n mod 4" unfolding m_def by (rule mod_mod_cancel) simp
  then have "m mod 4 = 0" using assms by simp
  then have "0 + 4 * (m div 4) = m" using mult_div_mod_eq[of 4 m] by simp
  moreover have "m < 65536" by (simp add: m_def)
  ultimately have "flush_loop m 0 [] =
      Some ([] @ concat (map (\<lambda>j. quad_indexes (0 + 4 * j)) [0..<m div 4]))"
    by (rule flush_loop_multiple)
  then show ?thesis by (simp add: flush_indexes_def m_def)
qed

lemma length_concat_quads:
  "length (concat (map (\<lambda>j. quad_indexes (f j)) xs)) = 6 * length xs"
  by (induction xs) (simp_all add: quad_indexes_def)

lemma set_concat_quads_bound:
  "i \<in> set (concat (map (\<lambda>j. quad_indexes (4 * j)) [0..<m])) \<Longrightarrow> i < 4 * m"
  by (auto simp: quad_indexes_def)

lemma flush_Some:
  assumes "length (m_fontVertices st) mod 4 = 0"
  shows "\<exists>st'. flush st = Some st' \<and> m_fontVertices st' = []"
proof (cases "length (m_fontVertices st) < 4")
  case True
  then have "length (m_fontVertices st) = 0" using assms by (auto simp: mod_less)
  then show ?thesis by (simp add: flush_def)
next
  case False
  then show ?thesis
    using flush_indexes_multiple[OF assms] by (simp add: flush_def)
qed

subsection \<open>Looking up glyphs keeps the font well formed\<close>

lemma font_frame_refl [simp]: "font_frame st st"
  by (simp add: font_frame_def)

lemma font_frame_trans: "font_frame a b \<Longrightarrow> font_frame b c \<Longrightarrow> font_frame a c"
  by (simp add: font_frame_def)

lemma length_common_chars: "length common_chars = 126"
  by (simp add: common_chars_def m_unicodeBlocks_def)

lemma toPos_range: "toPos c \<noteq> - 1 \<Longrightarrow> 0 \<le> toPos c \<and> toPos c < 126"
  by (auto simp: toPos_def m_unicodeBlocks_def split: if_splits)

lemma length_buildAtlas_loop:
  "length (fst (buildAtlas_loop env texW texH gs ox oy rowh)) = length gs"
  by (induction gs arbitrary: ox oy rowh)
     (simp_all add: Let_def case_prod_beta split: option.splits)


lemma initCommonGlyphs_frame: "font_frame st (initCommonGlyphs env st)"
  by (simp add: initCommonGlyphs_def font_frame_def)

lemma computeTextureSize_alt:
  "computeTextureSize st =
     st\<lparr>m_texWidth := fst (computeTextureSize_loop (m_maxTextureSize st) (m_glyphs st) 0 0 0 0),
        m_texHeight := snd (computeTextureSize_loop (m_maxTextureSize st) (m_glyphs st) 0 0 0 0)\<rparr>"
  by (simp add: computeTextureSize_def case_prod_beta)

lemma buildAtlas_frame: "font_frame st (snd (buildAtlas env st))"
  by (simp add: buildAtlas_def Let_def font_frame_def case_prod_beta computeTextureSize_alt
        initCommonGlyphs_def)

lemma buildAtlas_counts [simp]:
  "m_commonGlyphsCount (snd (buildAtlas env st)) = m_commonGlyphsCount st"
  "m_inserted (snd (buildAtlas env st)) = m_inserted st"
  by (simp_all add: buildAtlas_def Let_def case_prod_beta computeTextureSize_alt
        initCommonGlyphs_def)

lemma length_glyphs_buildAtlas:
  "m_glyphs st \<noteq> [] \<Longrightarrow> length (m_glyphs (snd (buildAtlas env st))) = length (m_glyphs st)"
  by (simp add: buildAtlas_def Let_def case_prod_beta computeTextureSize_alt
        initCommonGlyphs_def length_buildAtlas_loop)

lemma getCommonGlyphsCount_ready:
  "font_ready st \<Longrightarrow> fst (getCommonGlyphsCount st) = 126 \<and>
     m_commonGlyphsCount (snd (getCommonGlyphsCount st)) = 126 \<and>
     m_glyphs (snd (getCommonGlyphsCount st)) = m_glyphs st \<and>
     font_frame st (snd (getCommonGlyphsCount st))"
  by (auto simp: font_ready_def getCommonGlyphsCount_def Let_def m_unicodeBlocks_def
        length_common_chars font_frame_def)


lemma font_ready_getCommonGlyphsCount:
  "font_ready st \<Longrightarrow> font_ready (snd (getCommonGlyphsCount st))"
  by (auto simp: font_ready_def getCommonGlyphsCount_def Let_def m_unicodeBlocks_def
        length_common_chars)

lemma getGlyph_ready:
  assumes "font_ready st"
  shows "\<exists>g st'. getGlyph env c st = Some (g, st') \<and> font_ready st' \<and> font_frame st st'"
proof (cases "toPos c = - 1")
  case False
  then have "nat (toPos c) < 126" using toPos_range[of c] by linarith
  then have "nat (toPos c) < length (m_glyphs st)"
    using assms by (simp add: font_ready_def length_common_chars)
  then show ?thesis using False assms by (simp add: getGlyph_def)
next
  case True
  define st1 where "st1 = snd (getCommonGlyphsCount st)"
  have n: "fst (getCommonGlyphsCount st) = 126" and g1: "m_glyphs st1 = m_glyphs st"
    and f1: "font_frame st st1" and c1: "m_commonGlyphsCount st1 = 126"
    using getCommonGlyphsCount_ready[OF assms] by (simp_all add: st1_def)
  have r1: "font_ready st1" using assms by (simp add: st1_def font_ready_getCommonGlyphsCount)
  have len: "126 \<le> length (m_glyphs st1)"
    using assms g1 by (simp add: font_ready_def length_common_chars)
  show ?thesis
  proof (cases "find (\<lambda>g. ch g = c) (drop 126 (m_glyphs st1))")
    case (Some g)
    then show ?thesis using True n len r1 f1
      by (simp add: getGlyph_def case_prod_beta st1_def [symmetric])
  next
    case None
    show ?thesis
    proof (cases "fst (loadGlyphInfo env c (uninit_Glyph env))")
      case False
      then show ?thesis using True n len r1 f1 None
        by (simp add: getGlyph_def case_prod_beta st1_def [symmetric])
    next
      case ok: True
      define cg where "cg = snd (loadGlyphInfo env c (uninit_Glyph env))"
      define st4 where "st4 =
        (if m_inserted st1 + 1 = 10
         then optimize (st1\<lparr>m_glyphs := m_glyphs st1 @ [cg], m_inserted := m_inserted st1 + 1\<rparr>)
         else st1\<lparr>m_glyphs := m_glyphs st1 @ [cg], m_inserted := m_inserted st1 + 1\<rparr>)"
      define st5 where "st5 = snd (buildAtlas env st4)"
      have g4: "m_glyphs st4 = m_glyphs st1 @ [cg]" and c4: "m_commonGlyphsCount st4 = 126"
        and f4: "font_frame st1 st4"
        using c1 by (simp_all add: st4_def optimize_def font_frame_def)
      have res: "getGlyph env c st = Some (last (m_glyphs st5), st5)"
        using True n len None ok
        by (simp add: getGlyph_def case_prod_beta st1_def [symmetric] Let_def cg_def st4_def
              st5_def)
      have "length (m_glyphs st5) = length (m_glyphs st4)"
        unfolding st5_def by (rule length_glyphs_buildAtlas) (simp add: g4)
      then have "font_ready st5"
        using len g4 c4 by (simp add: font_ready_def length_common_chars st5_def)
      moreover have "font_frame st st5"
        using f1 f4 buildAtlas_frame[of st4 env] font_frame_trans unfolding st5_def by blast
      ultimately show ?thesis using res by simp
    qed
  qed
qed

lemma getGlyph_fallback_ready:
  assumes "font_ready st"
  shows "\<exists>g st'. getGlyph_fallback env c fb st = Some (g, st') \<and> font_ready st' \<and>
           font_frame st st'"
proof -
  obtain g st1 where 1: "getGlyph env c st = Some (g, st1)" "font_ready st1" "font_frame st st1"
    using getGlyph_ready[OF assms] by blast
  show ?thesis
  proof (cases "ch g = c")
    case True
    then show ?thesis using 1 by (simp add: getGlyph_fallback_def)
  next
    case False
    obtain g2 st2 where 2: "getGlyph env fb st1 = Some (g2, st2)" "font_ready st2"
      "font_frame st1 st2"
      using getGlyph_ready[OF 1(2)] by blast
    then show ?thesis using 1 False font_frame_trans
      by (auto simp: getGlyph_fallback_def)
  qed
qed

subsection \<open>Rendering and flushing\<close>

lemma buildAtlas_new_ready:
  assumes "m_glyphs st = []" and "m_commonGlyphsCount st = 0"
  shows "font_ready (snd (buildAtlas env st))"
  using assms
  by (simp add: buildAtlas_def Let_def case_prod_beta computeTextureSize_alt
        initCommonGlyphs_def length_buildAtlas_loop font_ready_def)

lemma example_font_ready: "font_ready example_font"
  unfolding example_font_def
  by (rule buildAtlas_new_ready) (simp_all add: example_new_font_def)

lemma example_font_frame: "font_frame example_new_font example_font"
  unfolding example_font_def by (rule buildAtlas_frame)

lemma example_font_no_vertices: "m_fontVertices example_font = []"
  using example_font_frame by (simp add: font_frame_def example_new_font_def)

text \<open>
  C8.  Calling \<^verbatim>\<open>flush()\<close> when the pending vertex batch is empty is a no-op: the font,
  and with it the log of calls issued to the graphics device, is returned unchanged,
  so no draw call is submitted.
\<close>

theorem flush_empty_is_noop:
  "m_fontVertices st = [] \<Longrightarrow> flush st = Some st"
  by (simp add: flush_def)

theorem flush_empty_is_noop_witness:
  "m_fontVertices example_font = [] \<and> flush example_font = Some example_font"
  using flush_empty_is_noop [of example_font] example_font_no_vertices by simp

lemma render_glyph_vertices:
  "length (m_fontVertices (render_glyph g x y st)) = length (m_fontVertices st) \<or>
   length (m_fontVertices (render_glyph g x y st)) = length (m_fontVertices st) + 4"
  by (simp add: render_glyph_def Let_def glyph_quad_def)

lemma render_glyph_ready [simp]: "font_ready (render_glyph g x y st) = font_ready st"
  by (simp add: render_glyph_def Let_def font_ready_def)

lemma render_glyph_mod4:
  "length (m_fontVertices st) mod 4 = 0 \<Longrightarrow>
   length (m_fontVertices (render_glyph g x y st)) mod 4 = 0"
  using render_glyph_vertices[of g x y st] by auto

lemma render_loop_ready:
  "font_ready st \<Longrightarrow> length (m_fontVertices st) mod 4 = 0 \<Longrightarrow>
   \<exists>r st'. render_loop env dec s i x y st = Some (r, st') \<and> font_ready st' \<and>
     length (m_fontVertices st') mod 4 = 0"
proof (induction env dec s i x y st rule: render_loop.induct)
  case (1 env dec s i x y st)
  show ?case
  proof (cases "i < length s")
    case False
    then show ?thesis using "1.prems" by (subst render_loop.simps) simp
  next
    case lt: True
    show ?thesis
    proof (cases "dec s i")
      case None
      then show ?thesis using lt "1.prems" by (subst render_loop.simps) simp
    next
      case (Some c)
      obtain g st1 where g: "getGlyph_fallback env c 0x3F st = Some (g, st1)"
        and r1: "font_ready st1" and f1: "font_frame st st1"
        using getGlyph_fallback_ready[OF "1.prems"(1)] by blast
      have v1: "length (m_fontVertices st1) mod 4 = 0"
        using f1 "1.prems"(2) by (simp add: font_frame_def)
      have "\<exists>r st'. render_loop env dec s (i + UTF8EncodedSize c)
                (fadd x (float_of_int (ax g))) (fadd y (float_of_int (ay g)))
                (render_glyph g x y st1) = Some (r, st') \<and> font_ready st' \<and>
                length (m_fontVertices st') mod 4 = 0"
        using lt Some g r1 v1 by (intro "1.IH") (simp_all add: render_glyph_mod4)
      then show ?thesis using lt Some g by (subst render_loop.simps) simp
    qed
  qed
qed

lemma render_string_ready:
  assumes "font_ready st" and "length (m_fontVertices st) mod 4 = 0"
  shows "\<exists>r st'. render_string env dec s x y st = Some (r, st') \<and> font_ready st' \<and>
     length (m_fontVertices st') mod 4 = 0"
proof (cases "m_texName st = 0")
  case True
  then show ?thesis using assms by (simp add: render_string_def)
next
  case False
  define st0 where "st0 = st\<lparr>effects := effects st @ [GlBindTexture (m_texName st)]\<rparr>"
  have "font_ready st0" using assms(1) by (simp add: font_ready_def st0_def)
  moreover have "length (m_fontVertices st0) mod 4 = 0" using assms(2) by (simp add: st0_def)
  ultimately have "\<exists>r st'. render_loop env dec s 0 x y st0 = Some (r, st') \<and> font_ready st' \<and>
     length (m_fontVertices st') mod 4 = 0"
    by (rule render_loop_ready)
  then show ?thesis using False by (simp add: render_string_def st0_def)
qed

lemma render_char_ready:
  assumes "font_ready st"
  shows "\<exists>r st'. render_char env c x y st = Some (r, st') \<and> font_ready st' \<and>
     length (m_fontVertices st') = length (m_fontVertices st) + 4 \<and>
     render_log st' = render_log st @ [(c, x, y)] \<and>
     m_maxAscent st' = m_maxAscent st \<and> m_maxDescent st' = m_maxDescent st \<and>
     m_prog st' = m_prog st \<and> m_shaderInUse st' = m_shaderInUse st \<and> m_MVP st' = m_MVP st"
proof -
  obtain g st1 where g: "getGlyph_fallback env c 0x3F st = Some (g, st1)"
    and r1: "font_ready st1" and f1: "font_frame st st1"
    using getGlyph_fallback_ready[OF assms] by blast
  then show ?thesis
    by (simp add: render_char_def Let_def glyph_quad_def font_ready_def font_frame_def)
qed

lemma flush_whole_quads:
  assumes "length (m_fontVertices st) mod 4 = 0"
  shows "\<exists>st' idx. flush st = Some st' \<and> m_fontVertices st' = [] \<and>
     flush_indexes (length (m_fontVertices st)) = Some idx \<and>
     list_all (\<lambda>i. i < length (m_fontVertices st)) idx \<and>
     length idx = 6 * ((length (m_fontVertices st) mod 65536) div 4) \<and>
     effects st' = effects st @
       (if m_fontVertices st = [] then [] else flush_calls (m_fontVertices st) idx) \<and>
     font_ready st' = font_ready st \<and> font_frame (st\<lparr>m_fontVertices := []\<rparr>) st' \<and>
     m_texName st' = m_texName st"
proof -
  define n where "n = length (m_fontVertices st)"
  define idx where "idx = concat (map (\<lambda>j. quad_indexes (4 * j)) [0..<(n mod 65536) div 4])"
  have fi: "flush_indexes n = Some idx"
    using assms flush_indexes_multiple[of n] by (simp add: n_def idx_def)
  have "4 * ((n mod 65536) div 4) \<le> n mod 65536" by simp
  also have "\<dots> \<le> n" by simp
  finally have le: "4 * ((n mod 65536) div 4) \<le> n" .
  have bound: "list_all (\<lambda>i. i < n) idx"
    unfolding list_all_iff idx_def using set_concat_quads_bound le by fastforce
  have len: "length idx = 6 * ((n mod 65536) div 4)"
    by (simp add: idx_def length_concat_quads)
  show ?thesis
  proof (cases "n < 4")
    case True
    then have n0: "n = 0" using assms by (auto simp: n_def mod_less)
    then have "idx = []" by (simp add: idx_def)
    then show ?thesis using fi n0
      by (simp add: flush_def n_def [symmetric] font_frame_def) (simp add: n_def)
  next
    case False
    then have "m_fontVertices st \<noteq> []" by (auto simp: n_def)
    then show ?thesis using False fi bound len
      by (simp add: flush_def n_def [symmetric] font_ready_def font_frame_def)
  qed
qed

text \<open>
  C10.  The pending vertex buffer holds whole quads.  From a font whose glyph table is
  loaded and whose buffer holds a multiple of 4 vertices: \<^verbatim>\<open>render(wchar_t, ...)\<close>
  returns and appends exactly 4 vertices; one step of the loop of
  \<^verbatim>\<open>render(const string&, ...)\<close> appends 4 vertices or none, and the whole call
  returns and leaves a multiple of 4; \<^verbatim>\<open>flush\<close> returns and leaves the buffer empty,
  and every index it generates (6 for each group of 4 vertices that its 16-bit counter
  visits) is below the number of vertices in the buffer.
\<close>

theorem vertex_buffer_holds_whole_quads:
  assumes "font_ready st" and "length (m_fontVertices st) mod 4 = 0"
  shows "(\<exists>r st'. render_char env c x y st = Some (r, st') \<and> font_ready st' \<and>
            length (m_fontVertices st') = length (m_fontVertices st) + 4) \<and>
         (length (m_fontVertices (render_glyph g x y st)) = length (m_fontVertices st) \<or>
          length (m_fontVertices (render_glyph g x y st)) = length (m_fontVertices st) + 4) \<and>
         (\<exists>r st'. render_string env dec s x y st = Some (r, st') \<and> font_ready st' \<and>
            length (m_fontVertices st') mod 4 = 0) \<and>
         (\<exists>st' idx. flush st = Some st' \<and> m_fontVertices st' = [] \<and>
            flush_indexes (length (m_fontVertices st)) = Some idx \<and>
            list_all (\<lambda>i. i < length (m_fontVertices st)) idx \<and>
            length idx = 6 * ((length (m_fontVertices st) mod 65536) div 4) \<and>
            effects st' = effects st @
              (if m_fontVertices st = [] then [] else flush_calls (m_fontVertices st) idx))"
proof (intro conjI)
  show "\<exists>r st'. render_char env c x y st = Some (r, st') \<and> font_ready st' \<and>
            length (m_fontVertices st') = length (m_fontVertices st) + 4"
    using render_char_ready[OF assms(1), of env c x y] by blast
  show "length (m_fontVertices (render_glyph g x y st)) = length (m_fontVertices st) \<or>
          length (m_fontVertices (render_glyph g x y st)) = length (m_fontVertices st) + 4"
    by (rule render_glyph_vertices)
  show "\<exists>r st'. render_string env dec s x y st = Some (r, st') \<and> font_ready st' \<and>
            length (m_fontVertices st') mod 4 = 0"
    using assms by (rule render_string_ready)
  show "\<exists>st' idx. flush st = Some st' \<and> m_fontVertices st' = [] \<and>
            flush_indexes (length (m_fontVertices st)) = Some idx \<and>
            list_all (\<lambda>i. i < length (m_fontVertices st)) idx \<and>
            length idx = 6 * ((length (m_fontVertices st) mod 65536) div 4) \<and>
            effects st' = effects st @
              (if m_fontVertices st = [] then [] else flush_calls (m_fontVertices st) idx)"
    using flush_whole_quads[OF assms(2)] by blast
qed

lemma getGlyph_fallback_common:
  assumes "font_ready st" and "toPos c \<noteq> - 1" and "toPos fb \<noteq> - 1"
  shows "\<exists>g. getGlyph_fallback env c fb st = Some (g, st)"
proof -
  have "nat (toPos c) < 126" "nat (toPos fb) < 126"
    using toPos_range[of c] toPos_range[of fb] assms by linarith+
  then have "nat (toPos c) < length (m_glyphs st)" "nat (toPos fb) < length (m_glyphs st)"
    using assms(1) by (simp_all add: font_ready_def length_common_chars)
  then show ?thesis using assms(2,3) by (simp add: getGlyph_fallback_def getGlyph_def)
qed

lemma toPos_examples [simp]: "toPos 0x3F = 31" "toPos 0x41 = 33" "toPos 0x42 = 34" "toPos 0x21 = 1"
  by (simp_all add: toPos_def m_unicodeBlocks_def)

lemma example_font_A_eq:
  "example_font_A =
     example_font\<lparr>m_fontVertices := m_fontVertices example_font_A,
                  render_log := [(0x41, Finite 0, Finite 0)]\<rparr> \<and>
   length (m_fontVertices example_font_A) = 4"
proof -
  obtain g where g: "getGlyph_fallback example_env 0x41 0x3F example_font = Some (g, example_font)"
    using getGlyph_fallback_common[OF example_font_ready, of "0x41" "0x3F" example_env] by auto
  have l: "render_log example_font = []"
    using example_font_frame by (simp add: font_frame_def example_new_font_def)
  obtain q where q: "example_font_A =
      example_font\<lparr>m_fontVertices := q, render_log := [(0x41, Finite 0, Finite 0)]\<rparr>"
      and "length q = 4"
    using g l by (simp add: example_font_A_def render_char_def Let_def glyph_quad_def
          example_font_no_vertices)
  have "m_fontVertices example_font_A = q" by (subst q) simp
  then show ?thesis using q \<open>length q = 4\<close> by simp
qed

lemma example_font_A_facts:
  "font_ready example_font_A" "length (m_fontVertices example_font_A) = 4"
  "m_prog example_font_A = False" "m_shaderInUse example_font_A = False"
proof -
  have e: "example_font_A =
     example_font\<lparr>m_fontVertices := m_fontVertices example_font_A,
                  render_log := [(0x41, Finite 0, Finite 0)]\<rparr>"
    and l: "length (m_fontVertices example_font_A) = 4"
    using example_font_A_eq by simp_all
  show "length (m_fontVertices example_font_A) = 4" by (rule l)
  have "font_ready (example_font\<lparr>m_fontVertices := m_fontVertices example_font_A,
                  render_log := [(0x41, Finite 0, Finite 0)]\<rparr>)"
    using example_font_ready by (simp add: font_ready_def)
  then show "font_ready example_font_A" using e by simp
  have "m_prog (example_font\<lparr>m_fontVertices := m_fontVertices example_font_A,
                  render_log := [(0x41, Finite 0, Finite 0)]\<rparr>) = False"
    using example_font_frame by (simp add: font_frame_def example_new_font_def)
  then show "m_prog example_font_A = False" using e by simp
  have "m_shaderInUse (example_font\<lparr>m_fontVertices := m_fontVertices example_font_A,
                  render_log := [(0x41, Finite 0, Finite 0)]\<rparr>) = False"
    using example_font_frame by (simp add: font_frame_def example_new_font_def)
  then show "m_shaderInUse example_font_A = False" using e by simp
qed

theorem vertex_buffer_holds_whole_quads_witness:
  "font_ready example_font_A \<and> length (m_fontVertices example_font_A) mod 4 = 0 \<and>
   map_option (\<lambda>(r, st'). length (m_fontVertices st'))
     (render_char example_env 0x42 (Finite 9) (Finite 0) example_font_A) = Some 8 \<and>
   map_option (\<lambda>(r, st'). length (m_fontVertices st') mod 4)
     (render_string example_env example_decode ''AB'' (Finite 9) (Finite 0) example_font_A) = Some 0 \<and>
   map_option m_fontVertices (flush example_font_A) = Some [] \<and>
   flush_indexes (length (m_fontVertices example_font_A)) = Some [0, 1, 2, 1, 3, 2]"
proof -
  have a: "font_ready example_font_A" and b: "length (m_fontVertices example_font_A) mod 4 = 0"
    using example_font_A_facts by simp_all
  have "flush_indexes 4 = Some [0, 1, 2, 1, 3, 2]"
    using flush_indexes_multiple[of 4] by (simp add: quad_indexes_def)
  then show ?thesis
    using vertex_buffer_holds_whole_quads [OF a b, of example_env "0x42" "Finite 9" "Finite 0"
        g_badGlyph example_decode "''AB''"] a b example_font_A_facts(2)
    by auto
qed


lemma buildAtlas_texName:
  "m_texName (snd (buildAtlas env st)) = glGenTextures env (gl_gen_count st)"
  by (simp add: buildAtlas_def Let_def case_prod_beta computeTextureSize_alt
        initCommonGlyphs_def)

lemma example_font_A_texName: "m_texName example_font_A = 1"
proof -
  have "m_texName example_font = 1"
    by (simp add: example_font_def buildAtlas_texName example_env_def example_new_font_def)
  then have "m_texName (example_font\<lparr>m_fontVertices := m_fontVertices example_font_A,
                  render_log := [(0x41, Finite 0, Finite 0)]\<rparr>) = 1"
    by simp
  then show ?thesis using example_font_A_eq by simp
qed

lemma example_font_A_MVP: "m_MVP example_font_A = 0"
proof -
  have "m_MVP example_font = 0"
    using example_font_frame by (simp add: font_frame_def example_new_font_def)
  then have "m_MVP (example_font\<lparr>m_fontVertices := m_fontVertices example_font_A,
                  render_log := [(0x41, Finite 0, Finite 0)]\<rparr>) = 0"
    by simp
  then show ?thesis using example_font_A_eq by simp
qed

lemma flush_indexes_4: "flush_indexes 4 = Some [0, 1, 2, 1, 3, 2]"
  using flush_indexes_multiple[of 4] by (simp add: quad_indexes_def)

text \<open>
  C4, as the code has it.  From a font whose buffer holds whole quads,
  \<^verbatim>\<open>setMVPMatrix\<close> returns and stores the matrix.  When the shader program exists and
  is in use, it first submits the pending quads (if any) as one draw, leaves nothing
  pending, and only then uploads the new matrix.  Otherwise it neither flushes nor
  uploads: the pending quads stay in the buffer.
\<close>

theorem setMVPMatrix_flushes_before_upload:
  assumes "length (m_fontVertices st) mod 4 = 0"
  shows "\<exists>st' idx. setMVPMatrix env mat st = Some st' \<and> m_MVP st' = mat \<and>
     flush_indexes (length (m_fontVertices st)) = Some idx \<and>
     (if (m_prog st \<or> getShader_text env) \<and> m_shaderInUse st
      then m_fontVertices st' = [] \<and>
           effects st' = effects st @
             (if m_fontVertices st = [] then [] else flush_calls (m_fontVertices st) idx) @
             [Mat4Param mat]
      else m_fontVertices st' = m_fontVertices st \<and> effects st' = effects st)"
proof -
  define st1 where "st1 = snd (getProgram env (st\<lparr>m_MVP := mat\<rparr>))"
  have p: "fst (getProgram env (st\<lparr>m_MVP := mat\<rparr>)) = (m_prog st \<or> getShader_text env)"
    by (simp add: getProgram_def)
  have s1: "m_fontVertices st1 = m_fontVertices st" "effects st1 = effects st"
    "m_MVP st1 = mat" "m_shaderInUse st1 = m_shaderInUse st"
    by (simp_all add: st1_def getProgram_def)
  have "length (m_fontVertices st1) mod 4 = 0" using assms s1 by simp
  then have "\<exists>st2 idx. flush st1 = Some st2 \<and> m_fontVertices st2 = [] \<and>
    flush_indexes (length (m_fontVertices st1)) = Some idx \<and>
    effects st2 = effects st1 @
       (if m_fontVertices st1 = [] then [] else flush_calls (m_fontVertices st1) idx) \<and>
    font_frame (st1\<lparr>m_fontVertices := []\<rparr>) st2"
    using flush_whole_quads[of st1] by (elim meta_impE exE conjE) (assumption, fast)
  then obtain st2 idx where f: "flush st1 = Some st2" "m_fontVertices st2 = []"
    "flush_indexes (length (m_fontVertices st1)) = Some idx"
    "effects st2 = effects st1 @
       (if m_fontVertices st1 = [] then [] else flush_calls (m_fontVertices st1) idx)"
    "font_frame (st1\<lparr>m_fontVertices := []\<rparr>) st2"
    by (elim exE conjE)
  have m2: "m_MVP st2 = mat" using f(5) s1 by (simp add: font_frame_def)
  show ?thesis
  proof (cases "(m_prog st \<or> getShader_text env) \<and> m_shaderInUse st")
    case True
    then have "setMVPMatrix env mat st = Some (st2\<lparr>effects := effects st2 @ [Mat4Param mat]\<rparr>)"
      using p f(1) s1 by (simp add: setMVPMatrix_def case_prod_beta st1_def [symmetric])
    then show ?thesis using True f s1 m2 by simp
  next
    case False
    then have "setMVPMatrix env mat st = Some st1"
      using p s1 by (auto simp add: setMVPMatrix_def case_prod_beta st1_def [symmetric])
    then show ?thesis using False f(3) s1 by simp
  qed
qed

lemma bind_example_font_A:
  "bind example_env example_font_A =
     example_font_A\<lparr>m_prog := True,
       effects := effects example_font_A @
         [GlActiveTexture, GlBindTexture 1, ProgUse, SamplerParam, Mat4Param 0],
       m_shaderInUse := True\<rparr>"
  using example_font_A_facts(3) example_font_A_texName example_font_A_MVP
  by (simp add: bind_def getProgram_def example_env_def)

theorem setMVPMatrix_flushes_before_upload_witness:
  "length (m_fontVertices (bind example_env example_font_A)) mod 4 = 0 \<and>
   map_option m_fontVertices (setMVPMatrix example_env 2 (bind example_env example_font_A)) =
     Some [] \<and>
   map_option effects (setMVPMatrix example_env 2 (bind example_env example_font_A)) =
     Some (effects example_font_A @
       [GlActiveTexture, GlBindTexture 1, ProgUse, SamplerParam, Mat4Param 0] @
       flush_calls (m_fontVertices example_font_A) [0, 1, 2, 1, 3, 2] @ [Mat4Param 2])"
proof -
  have a: "length (m_fontVertices (bind example_env example_font_A)) mod 4 = 0"
    using example_font_A_facts(2) by (simp add: bind_example_font_A)
  have ne: "m_fontVertices example_font_A \<noteq> []" using example_font_A_facts(2) by auto
  show ?thesis
    using setMVPMatrix_flushes_before_upload [OF a, of example_env 2] a ne flush_indexes_4
      example_font_A_facts(2)
    by (auto simp: bind_example_font_A)
qed

text \<open>
  The claim as stated fails when the shader is not in use: a quad rendered while the
  font's transform is 0 stays pending through \<^verbatim>\<open>setMVPMatrix(2)\<close>, which issues no
  call at all; the following \<^verbatim>\<open>bind\<close> uploads the new transform, and the quad is
  drawn after that upload.
\<close>

theorem setMVPMatrix_not_in_use_counterexample:
  "length (m_fontVertices example_font_A) = 4 \<and> m_MVP example_font_A = 0 \<and>
   \<not> m_shaderInUse example_font_A \<and>
   setMVPMatrix example_env 2 example_font_A =
     Some (example_font_A\<lparr>m_prog := True, m_MVP := 2\<rparr>) \<and>
   map_option effects
     (flush (bind example_env (example_font_A\<lparr>m_prog := True, m_MVP := 2\<rparr>))) =
     Some (effects example_font_A @
       [GlActiveTexture, GlBindTexture 1, ProgUse, SamplerParam, Mat4Param 2] @
       flush_calls (m_fontVertices example_font_A) [0, 1, 2, 1, 3, 2])"
proof -
  have 1: "setMVPMatrix example_env 2 example_font_A =
     Some (example_font_A\<lparr>m_prog := True, m_MVP := 2\<rparr>)"
    using example_font_A_facts(3,4)
    by (simp add: setMVPMatrix_def getProgram_def example_env_def)
  have 2: "bind example_env (example_font_A\<lparr>m_prog := True, m_MVP := 2\<rparr>) =
     example_font_A\<lparr>m_prog := True, m_MVP := 2,
       effects := effects example_font_A @
         [GlActiveTexture, GlBindTexture 1, ProgUse, SamplerParam, Mat4Param 2],
       m_shaderInUse := True\<rparr>"
    using example_font_A_texName by (simp add: bind_def getProgram_def)
  have 3: "map_option effects (flush (example_font_A\<lparr>m_prog := True, m_MVP := 2,
       effects := effects example_font_A @
         [GlActiveTexture, GlBindTexture 1, ProgUse, SamplerParam, Mat4Param 2],
       m_shaderInUse := True\<rparr>)) =
     Some (effects example_font_A @
       [GlActiveTexture, GlBindTexture 1, ProgUse, SamplerParam, Mat4Param 2] @
       flush_calls (m_fontVertices example_font_A) [0, 1, 2, 1, 3, 2])"
    using example_font_A_facts(2) flush_indexes_4 by (simp add: flush_def)
  show ?thesis
    using 1 2 3 example_font_A_facts(2,4) example_font_A_MVP by simp
qed

subsection \<open>The streaming decoder\<close>



lemma byte_tests_all:
  "list_all (\<lambda>c::int.
      (c AND 0xe0 = 0xc0) = (0xC0 \<le> c \<and> c < 0xE0) \<and>
      (c AND 0xf0 = 0xe0) = (0xE0 \<le> c \<and> c < 0xF0) \<and>
      (c AND 0xf8 = 0xf0) = (0xF0 \<le> c \<and> c < 0xF8) \<and>
      (c AND 0xfc = 0xf8) = (0xF8 \<le> c \<and> c < 0xFC) \<and>
      (c AND 0xfe = 0xfc) = (0xFC \<le> c \<and> c < 0xFE) \<and>
      (c AND 0xc0 = 0x80) = (0x80 \<le> c \<and> c < 0xC0)) [0..255]"
  by code_simp

lemma byte_tests:
  assumes "0 \<le> (c::int)" "c < 256"
  shows "(c AND 0xe0 = 0xc0) = (0xC0 \<le> c \<and> c < 0xE0)"
    "(c AND 0xf0 = 0xe0) = (0xE0 \<le> c \<and> c < 0xF0)"
    "(c AND 0xf8 = 0xf0) = (0xF0 \<le> c \<and> c < 0xF8)"
    "(c AND 0xfc = 0xf8) = (0xF8 \<le> c \<and> c < 0xFC)"
    "(c AND 0xfe = 0xfc) = (0xFC \<le> c \<and> c < 0xFE)"
    "(c AND 0xc0 = 0x80) = (0x80 \<le> c \<and> c < 0xC0)"
proof -
  have "c \<in> set [0..255]" using assms by simp
  then have "(c AND 0xe0 = 0xc0) = (0xC0 \<le> c \<and> c < 0xE0) \<and>
      (c AND 0xf0 = 0xe0) = (0xE0 \<le> c \<and> c < 0xF0) \<and>
      (c AND 0xf8 = 0xf0) = (0xF0 \<le> c \<and> c < 0xF8) \<and>
      (c AND 0xfc = 0xf8) = (0xF8 \<le> c \<and> c < 0xFC) \<and>
      (c AND 0xfe = 0xfc) = (0xFC \<le> c \<and> c < 0xFE) \<and>
      (c AND 0xc0 = 0x80) = (0x80 \<le> c \<and> c < 0xC0)"
    using byte_tests_all unfolding list_all_iff by blast
  then show "(c AND 0xe0 = 0xc0) = (0xC0 \<le> c \<and> c < 0xE0)"
    "(c AND 0xf0 = 0xe0) = (0xE0 \<le> c \<and> c < 0xF0)"
    "(c AND 0xf8 = 0xf0) = (0xF0 \<le> c \<and> c < 0xF8)"
    "(c AND 0xfc = 0xf8) = (0xF8 \<le> c \<and> c < 0xFC)"
    "(c AND 0xfe = 0xfc) = (0xFC \<le> c \<and> c < 0xFE)"
    "(c AND 0xc0 = 0x80) = (0x80 \<le> c \<and> c < 0xC0)"
    by blast+
qed

lemma and_63: "(c::int) AND 0x3f = c mod 64"
proof -
  have "c AND mask 6 = c mod 64" by (simp add: take_bit_eq_mask [symmetric] take_bit_eq_mod)
  then show ?thesis by (simp add: mask_eq_exp_minus_1)
qed

lemma and_low_mask: "(c::int) AND (push_bit k 1 - 1) = c mod 2 ^ k"
  by (simp add: push_bit_eq_mult mask_eq_exp_minus_1 [symmetric] take_bit_eq_mask [symmetric]
        take_bit_eq_mod)

lemma and_low_masks:
  "(c::int) AND 31 = c mod 32" "c AND 15 = c mod 16" "c AND 7 = c mod 8"
  "c AND 3 = c mod 4" "c AND 1 = c mod 2"
  using and_low_mask[of c 5] and_low_mask[of c 4] and_low_mask[of c 3] and_low_mask[of c 2]
    and_low_mask[of c 1]
  by simp_all

lemma or_push_bit_payload:
  "push_bit (s + 6) (a::int) OR push_bit s (b mod 64) = push_bit s (a * 64 + b mod 64)"
proof -
  have "push_bit s (a * 64 + b mod 64) = push_bit s (take_bit 6 b + push_bit 6 a)"
    by (simp add: push_bit_eq_mult take_bit_eq_mod)
  also have "\<dots> = push_bit s (take_bit 6 b OR push_bit 6 a)"
    using concat_bit_eq[of 6 b a] by (simp add: concat_bit_def)
  also have "\<dots> = push_bit s (take_bit 6 b) OR push_bit (s + 6) a"
    by (simp add: push_bit_or push_bit_push_bit add.commute)
  finally show ?thesis by (simp add: take_bit_eq_mod or.commute)
qed

lemma char_cast_ascii: "0 \<le> c \<Longrightarrow> c < 0x80 \<Longrightarrow> char_cast c = c"
  by (simp add: char_cast_def sint_sbintrunc' signed_take_bit_int_eq_self)

lemma fst_overflow [simp]: "fst (overflow c sb) = c"
  by (simp add: overflow_def Let_def split: UTF8DecodeState.splits)

lemma fst_overflow_all [simp]: "fst (overflow_all bs sb) = bs"
  by (induction bs arbitrary: sb) (simp_all add: case_prod_beta)

lemma overflow_continuation:
  assumes "overlay_set sb" and "decodeState sb = UTF8DecodeMultibyte"
    and "utf8_continuation c" and "decodeShift sb = 6 * Suc k"
    and "decodedChar sb = push_bit (6 * Suc k) acc"
  shows "overflow c sb =
    (if k = 0
     then (c, sb\<lparr>decodeShift := 0, decodedChar := acc * 64 + c mod 64,
                   decodeState := UTF8DecodeStart\<rparr>, [acc * 64 + c mod 64])
     else (c, sb\<lparr>decodeShift := 6 * k,
                   decodedChar := push_bit (6 * k) (acc * 64 + c mod 64)\<rparr>, []))"
proof -
  have c: "0 \<le> c" "c < 256" using assms(3) by (simp_all add: utf8_continuation_def)
  have t: "c AND 0xc0 = 0x80" using byte_tests(6)[OF c] assms(3) by (simp add: utf8_continuation_def)
  have d: "decodedChar sb OR push_bit (6 * k) (c AND 0x3f) =
      push_bit (6 * k) (acc * 64 + c mod 64)"
    using or_push_bit_payload[of "6 * k" acc c] by (simp add: assms(5) and_63 add.commute)
  show ?thesis
  proof (cases "k = 0")
    case True
    then have "decodedChar sb OR (c AND 0x3f) = acc * 64 + c mod 64" using d by simp
    then show ?thesis
      using assms(1,2,4) t True by (simp add: overflow_def Let_def del: push_bit_and)
  next
    case False
    then show ?thesis
      using assms(1,2,4) t d by (simp add: overflow_def Let_def del: push_bit_and)
  qed
qed

lemma overflow_continuations:
  assumes "overlay_set sb" and "decodeState sb = UTF8DecodeMultibyte"
    and "list_all utf8_continuation cs" and "cs \<noteq> []"
    and "decodeShift sb = 6 * length cs"
    and "decodedChar sb = push_bit (6 * length cs) acc"
  shows "overflow_all cs sb =
    (cs, sb\<lparr>decodeShift := 0,
              decodedChar := foldl (\<lambda>a k. a * 64 + k mod 64) acc cs,
              decodeState := UTF8DecodeStart\<rparr>,
     [foldl (\<lambda>a k. a * 64 + k mod 64) acc cs])"
  using assms
proof (induction cs arbitrary: sb acc)
  case Nil
  then show ?case by simp
next
  case (Cons c cs)
  have step: "overflow c sb =
    (if length cs = 0
     then (c, sb\<lparr>decodeShift := 0, decodedChar := acc * 64 + c mod 64,
                   decodeState := UTF8DecodeStart\<rparr>, [acc * 64 + c mod 64])
     else (c, sb\<lparr>decodeShift := 6 * length cs,
                   decodedChar := push_bit (6 * length cs) (acc * 64 + c mod 64)\<rparr>, []))"
    using Cons.prems by (intro overflow_continuation) simp_all
  show ?case
  proof (cases cs)
    case Nil
    then show ?thesis using step by simp
  next
    case (Cons c' cs')
    define sb1 where "sb1 = sb\<lparr>decodeShift := 6 * length cs,
                   decodedChar := push_bit (6 * length cs) (acc * 64 + c mod 64)\<rparr>"
    have s: "overflow c sb = (c, sb1, [])" using step Cons by (simp add: sb1_def)
    have "overflow_all cs sb1 =
      (cs, sb1\<lparr>decodeShift := 0,
              decodedChar := foldl (\<lambda>a k. a * 64 + k mod 64) (acc * 64 + c mod 64) cs,
              decodeState := UTF8DecodeStart\<rparr>,
       [foldl (\<lambda>a k. a * 64 + k mod 64) (acc * 64 + c mod 64) cs])"
      using Cons.prems Cons by (intro Cons.IH) (simp_all add: sb1_def)
    then show ?thesis using s by (simp add: sb1_def)
  qed
qed

lemma overflow_head:
  assumes "overlay_set sb" and "decodeState sb = UTF8DecodeStart"
    and "utf8_head_len h = n" and "2 \<le> n"
  shows "overflow h sb =
    (h, sb\<lparr>decodeShift := (n - 1) * 6,
              decodedChar := push_bit ((n - 1) * 6) (h mod 2 ^ (7 - n)),
              decodeState := UTF8DecodeMultibyte\<rparr>, [])"
proof -
  have h: "0 \<le> h" "h < 256" "\<not> h < 0x80"
    using assms(3,4) by (auto simp: utf8_head_len_def split: if_splits)
  note bt = byte_tests[OF h(1,2)]
  show ?thesis
    using assms h(3)
    by (auto simp: overflow_def Let_def bt and_low_masks utf8_head_len_def
        simp del: push_bit_and split: if_splits)
qed

lemma overflow_all_sequence:
  assumes "overlay_set sb" and "decodeState sb = UTF8DecodeStart" and "utf8_sequence vs"
  shows "snd (snd (overflow_all vs sb)) = [utf8_code_point vs] \<and>
         decodeState (fst (snd (overflow_all vs sb))) = UTF8DecodeStart"
proof -
  obtain h cs where vs: "vs = h # cs" and len: "utf8_head_len h = Suc (length cs)"
    and cont: "list_all utf8_continuation cs"
    using assms(3) by (auto simp: utf8_sequence_def split: list.splits)
  show ?thesis
  proof (cases cs)
    case Nil
    then have "0 \<le> h" "h < 0x80"
      using len by (auto simp: utf8_head_len_def split: if_splits)
    then show ?thesis
      using assms(1,2) Nil vs len
      by (simp add: overflow_def char_cast_ascii utf8_code_point_def)
  next
    case (Cons c cs')
    define n where "n = Suc (length cs)"
    have n2: "2 \<le> n" using Cons by (simp add: n_def)
    define sb1 where "sb1 = sb\<lparr>decodeShift := (n - 1) * 6,
              decodedChar := push_bit ((n - 1) * 6) (h mod 2 ^ (7 - n)),
              decodeState := UTF8DecodeMultibyte\<rparr>"
    have hd: "overflow h sb = (h, sb1, [])"
      using overflow_head[OF assms(1,2) _ n2, of h] len by (simp add: n_def sb1_def)
    have "overflow_all cs sb1 =
      (cs, sb1\<lparr>decodeShift := 0,
              decodedChar := foldl (\<lambda>a k. a * 64 + k mod 64) (h mod 2 ^ (7 - n)) cs,
              decodeState := UTF8DecodeStart\<rparr>,
       [foldl (\<lambda>a k. a * 64 + k mod 64) (h mod 2 ^ (7 - n)) cs])"
      using assms(1) cont Cons
      by (intro overflow_continuations) (simp_all add: sb1_def n_def mult.commute)
    moreover have "utf8_code_point vs = foldl (\<lambda>a k. a * 64 + k mod 64) (h mod 2 ^ (7 - n)) cs"
      using vs len Cons by (simp add: utf8_code_point_def n_def)
    ultimately show ?thesis using hd vs by simp
  qed
qed

lemma overflow_bad_continuation:
  assumes "overlay_set sb" and "decodeState sb = UTF8DecodeMultibyte"
    and "0 \<le> c" and "c < 256" and "\<not> utf8_continuation c"
  shows "overflow c sb = (c, sb\<lparr>decodeState := UTF8DecodeStart\<rparr>, [])"
  using assms byte_tests(6)[of c]
  by (auto simp: overflow_def utf8_continuation_def)


text \<open>
  C2.  Whatever bytes are written, \<^verbatim>\<open>overflow\<close> returns each byte it was given.  With
  the overlay set and the decoder in its start state, the bytes of a 1 to 6 byte
  legacy UTF-8 sequence cause exactly one call of \<^verbatim>\<open>print\<close>, with the code point of
  the sequence, and leave the decoder in its start state.  A byte that is not a
  continuation byte, arriving while a multi-byte sequence is in progress, puts the
  decoder back in its start state and prints nothing.  (\<^verbatim>\<open>wchar_t\<close> is taken to hold
  31 bits, as on the platforms where it is a 32-bit \<^verbatim>\<open>int\<close>.)
\<close>

theorem overflow_decodes_legacy_utf8:
  "fst (overflow_all bs sb) = bs \<and>
   (overlay_set sb1 \<and> decodeState sb1 = UTF8DecodeStart \<and> utf8_sequence vs \<longrightarrow>
      fst (overflow_all vs sb1) = vs \<and>
      snd (snd (overflow_all vs sb1)) = [utf8_code_point vs] \<and>
      decodeState (fst (snd (overflow_all vs sb1))) = UTF8DecodeStart) \<and>
   (overlay_set sb2 \<and> decodeState sb2 = UTF8DecodeMultibyte \<and> 0 \<le> c \<and> c < 256 \<and>
    \<not> utf8_continuation c \<longrightarrow>
      overflow c sb2 = (c, sb2\<lparr>decodeState := UTF8DecodeStart\<rparr>, []))"
  using overflow_all_sequence[of sb1 vs] overflow_bad_continuation[of sb2 c]
  by simp

theorem overflow_decodes_legacy_utf8_witness:
  "fst (overflow_all [0xC3, 0x41, 0xFF] example_streambuf) = [0xC3, 0x41, 0xFF] \<and>
   utf8_sequence [0xE2, 0x98, 0xBA] \<and>
   snd (snd (overflow_all [0xE2, 0x98, 0xBA] example_streambuf)) = [0x263A] \<and>
   decodeState (fst (snd (overflow_all [0xE2, 0x98, 0xBA] example_streambuf))) = UTF8DecodeStart \<and>
   decodeState example_streambuf_mid = UTF8DecodeMultibyte \<and>
   overflow 0x41 example_streambuf_mid =
     (0x41, example_streambuf_mid\<lparr>decodeState := UTF8DecodeStart\<rparr>, [])"
proof -
  have s: "utf8_sequence [0xE2, 0x98, 0xBA]"
    by (simp add: utf8_sequence_def utf8_head_len_def utf8_continuation_def)
  have v: "utf8_code_point [0xE2, 0x98, 0xBA] = 0x263A"
    by (simp add: utf8_code_point_def utf8_head_len_def)
  have m: "overlay_set example_streambuf_mid"
    "decodeState example_streambuf_mid = UTF8DecodeMultibyte"
    by (simp_all add: example_streambuf_mid_def example_streambuf_def overflow_def Let_def)
  have n: "\<not> utf8_continuation 0x41" by (simp add: utf8_continuation_def)
  have e: "overlay_set example_streambuf" "decodeState example_streambuf = UTF8DecodeStart"
    by (simp_all add: example_streambuf_def)
  show ?thesis
    using overflow_decodes_legacy_utf8 [of "[0xC3, 0x41, 0xFF]" example_streambuf
        example_streambuf "[0xE2, 0x98, 0xBA]" example_streambuf_mid "0x41"] s v m n e
    by simp
qed

subsection \<open>Sphere classification\<close>

lemma testSphere_loop_Outside:
  "testSphere_loop ps c r hit = Outside \<longleftrightarrow> (\<exists>p\<in>set ps. signedDistance p c < - r)"
  by (induction ps arbitrary: hit) auto

lemma testSphere_loop_Inside:
  "testSphere_loop ps c r hit = Inside \<longleftrightarrow>
     \<not> hit \<and> (\<forall>p\<in>set ps. \<not> signedDistance p c < - r \<and> \<not> \<bar>signedDistance p c\<bar> \<le> r)"
  by (induction ps arbitrary: hit) auto

lemma testSphere_loop_Intersect:
  "testSphere_loop ps c r hit = Intersect \<longleftrightarrow>
     (\<forall>p\<in>set ps. \<not> signedDistance p c < - r) \<and>
     (hit \<or> (\<exists>p\<in>set ps. \<bar>signedDistance p c\<bar> \<le> r))"
  by (induction ps arbitrary: hit) auto

text \<open>
  C9, as the rule of the specification has it.  \<^verbatim>\<open>testSphere\<close> returns Outside exactly
  when the signed distance to some plane is below minus the radius; Intersect exactly
  when no plane yields Outside and the absolute distance to some plane is at most the
  radius; Inside otherwise, that is when the sphere is farther than its radius inside
  every half-space.  So a sphere farther outside some half-space than its radius is
  Outside, and a sphere within its radius of exactly one plane and farther than its
  radius inside all the others is Intersect.  A sphere of radius 0 at the apex is never
  Inside: its distance to the side planes is 0, which is within the radius.
\<close>

theorem testSphere_classifies:
  "(testSphere ps c r = Outside \<longleftrightarrow> (\<exists>p\<in>set ps. signedDistance p c < - r)) \<and>
   (testSphere ps c r = Intersect \<longleftrightarrow>
      (\<forall>p\<in>set ps. \<not> signedDistance p c < - r) \<and> (\<exists>p\<in>set ps. \<bar>signedDistance p c\<bar> \<le> r)) \<and>
   (testSphere ps c r = Inside \<longleftrightarrow> (\<forall>p\<in>set ps. r < signedDistance p c \<and> - r \<le> signedDistance p c)) \<and>
   (i < length ps \<and> \<bar>signedDistance (ps ! i) c\<bar> \<le> r \<and>
    (\<forall>j < length ps. j \<noteq> i \<longrightarrow> r < signedDistance (ps ! j) c \<and> - r \<le> signedDistance (ps ! j) c) \<longrightarrow>
      testSphere ps c r = Intersect) \<and>
   (at_apex ps a \<longrightarrow> testSphere ps a 0 \<noteq> Inside)"
proof (intro conjI impI)
  show "testSphere ps c r = Outside \<longleftrightarrow> (\<exists>p\<in>set ps. signedDistance p c < - r)"
    by (simp add: testSphere_def testSphere_loop_Outside)
  show "testSphere ps c r = Intersect \<longleftrightarrow>
      (\<forall>p\<in>set ps. \<not> signedDistance p c < - r) \<and> (\<exists>p\<in>set ps. \<bar>signedDistance p c\<bar> \<le> r)"
    by (simp add: testSphere_def testSphere_loop_Intersect)
  show "testSphere ps c r = Inside \<longleftrightarrow> (\<forall>p\<in>set ps. r < signedDistance p c \<and> - r \<le> signedDistance p c)"
    unfolding testSphere_def testSphere_loop_Inside by (auto simp: abs_le_iff not_le not_less)
next
  assume a: "i < length ps \<and> \<bar>signedDistance (ps ! i) c\<bar> \<le> r \<and>
    (\<forall>j < length ps. j \<noteq> i \<longrightarrow> r < signedDistance (ps ! j) c \<and> - r \<le> signedDistance (ps ! j) c)"
  have "\<not> signedDistance p c < - r" if "p \<in> set ps" for p
  proof -
    from that have "\<exists>j<length ps. ps ! j = p" by (simp only: in_set_conv_nth)
    then obtain j where j: "j < length ps" "ps ! j = p" by blast
    have d: "\<bar>signedDistance (ps ! i) c\<bar> \<le> r" using a by blast
    have o: "j \<noteq> i \<Longrightarrow> - r \<le> signedDistance (ps ! j) c" using a j(1) by blast
    show ?thesis
    proof (cases "j = i")
      case True
      then show ?thesis using d j(2) by (auto simp: abs_le_iff)
    next
      case False
      then show ?thesis using o j(2) by auto
    qed
  qed
  moreover have "\<exists>p\<in>set ps. \<bar>signedDistance p c\<bar> \<le> r" using a by (auto intro: bexI[of _ "ps ! i"])
  ultimately show "testSphere ps c r = Intersect"
    by (simp add: testSphere_def testSphere_loop_Intersect)
next
  assume "at_apex ps a"
  then have "Bottom < length ps" "signedDistance (ps ! Bottom) a = 0"
    by (simp_all add: at_apex_def)
  then have "\<exists>p\<in>set ps. \<bar>signedDistance p a\<bar> \<le> 0" by (auto intro: bexI[of _ "ps ! Bottom"])
  then show "testSphere ps a 0 \<noteq> Inside"
    by (auto simp: testSphere_def testSphere_loop_Inside)
qed

theorem testSphere_classifies_witness:
  "testSphere example_frustum (0, 0, - 2000) 1 = Outside \<and>
   signedDistance (example_frustum ! Far) (0, 0, - 2000) < - 1 \<and>
   testSphere example_frustum (0, 0, - 11/10) (1/4) = Intersect \<and>
   \<bar>signedDistance (example_frustum ! Near) (0, 0, - 11/10)\<bar> \<le> 1/4 \<and>
   list_all (\<lambda>j. 1/4 < signedDistance (example_frustum ! j) (0, 0, - 11/10))
     [Bottom, Top, Left, Right, Far] \<and>
   testSphere example_frustum (0, 0, - 500) 1 = Inside \<and>
   at_apex example_frustum (0, 0, 0) \<and>
   testSphere example_frustum (0, 0, 0) 0 \<noteq> Inside"
proof -
  have "at_apex example_frustum (0, 0, 0)"
    by (simp add: at_apex_def example_frustum_def signedDistance_def Bottom_def Top_def
          Left_def Right_def)
  then show ?thesis
    using testSphere_classifies [of example_frustum "(0, 0, - 2000)" 1 4 "(0, 0, 0)"]
      testSphere_classifies [of example_frustum "(0, 0, - 11/10)" "1/4" Near "(0, 0, 0)"]
    by (simp add: testSphere_def example_frustum_def signedDistance_def Bottom_def Top_def
          Left_def Right_def Near_def Far_def)
qed

text \<open>
  The claim has the radius-0 sphere at the apex Inside.  By the rule it is Outside: the
  apex is in front of the near plane.
\<close>

theorem testSphere_apex_counterexample:
  "at_apex example_frustum (0, 0, 0) \<and> testSphere example_frustum (0, 0, 0) 0 = Outside"
  by (simp add: at_apex_def testSphere_def example_frustum_def signedDistance_def Bottom_def
        Top_def Left_def Right_def)

subsection \<open>Packing the atlas\<close>

lemma row_width_snoc [simp]: "row_width (r @ [c]) = row_width r + (bw c + 1)"
  by (simp add: row_width_def)

lemma row_height_snoc [simp]: "row_height (r @ [c]) = max (row_height r) (bh c)"
  by (simp add: row_height_def)

lemma row_simps [simp]: "row_width [] = 0" "row_height [] = 0"
  by (simp_all add: row_width_def row_height_def)

lemma row_single [simp]: "row_width [c] = bw c + 1" "row_height [c] = max 0 (bh c)"
  by (simp_all add: row_width_def row_height_def)

lemma computeTextureSize_loop_rows:
  "computeTextureSize_loop maxTex gs (row_width cur) (row_height cur) w h =
     (foldl max w (map row_width (shelf_rows maxTex gs cur)),
      h + sum_list (map row_height (shelf_rows maxTex gs cur)))"
proof (induction gs arbitrary: cur w h)
  case Nil
  show ?case by simp
next
  case (Cons c cs)
  show ?case
  proof (cases "ch c = 0")
    case True
    then show ?thesis using Cons.IH[of cur w h] by simp
  next
    case False
    show ?thesis
    proof (cases "row_width cur + bw c + 1 \<ge> maxTex")
      case True
      have "computeTextureSize_loop maxTex cs (row_width [c]) (row_height [c])
              (max w (row_width cur)) (h + row_height cur) =
            (foldl max (max w (row_width cur)) (map row_width (shelf_rows maxTex cs [c])),
             h + row_height cur + sum_list (map row_height (shelf_rows maxTex cs [c])))"
        by (rule Cons.IH)
      then show ?thesis using False True by simp
    next
      case nb: False
      have "computeTextureSize_loop maxTex cs (row_width (cur @ [c])) (row_height (cur @ [c])) w h =
            (foldl max w (map row_width (shelf_rows maxTex cs (cur @ [c]))),
             h + sum_list (map row_height (shelf_rows maxTex cs (cur @ [c]))))"
        by (rule Cons.IH)
      then show ?thesis using False nb by simp
    qed
  qed
qed

lemma concat_shelf_rows:
  "concat (shelf_rows maxTex gs cur) = cur @ filter (\<lambda>g. ch g \<noteq> 0) gs"
  by (induction gs arbitrary: cur) simp_all

lemma shelf_rows_below_max:
  "length cur \<le> 1 \<or> row_width cur < maxTex \<Longrightarrow>
   list_all (\<lambda>r. length r \<le> 1 \<or> row_width r < maxTex) (shelf_rows maxTex gs cur)"
proof (induction gs arbitrary: cur)
  case Nil
  then show ?case by simp
next
  case (Cons c cs)
  show ?case
  proof (cases "ch c = 0")
    case True
    then show ?thesis using Cons by simp
  next
    case False
    show ?thesis
    proof (cases "row_width cur + bw c + 1 \<ge> maxTex")
      case True
      have "list_all (\<lambda>r. length r \<le> 1 \<or> row_width r < maxTex) (shelf_rows maxTex cs [c])"
        by (rule Cons.IH) simp
      then show ?thesis using False True Cons.prems by simp
    next
      case nb: False
      have "list_all (\<lambda>r. length r \<le> 1 \<or> row_width r < maxTex) (shelf_rows maxTex cs (cur @ [c]))"
        using nb by (intro Cons.IH) simp
      then show ?thesis using False nb by simp
    qed
  qed
qed

lemma computeTextureSize_loop_le_max:
  "roww \<le> M \<Longrightarrow> w \<le> M \<Longrightarrow> list_all (\<lambda>g. ch g = 0 \<or> bw g + 1 \<le> M) gs \<Longrightarrow>
   fst (computeTextureSize_loop M gs roww rowh w h) \<le> M"
  by (induction M gs roww rowh w h rule: computeTextureSize_loop.induct) auto

lemma computeTextureSize_loop_ge:
  "list_all (\<lambda>g. ch g = 0 \<or> 0 \<le> bw g) gs \<Longrightarrow> 0 \<le> roww \<Longrightarrow>
   max w roww \<le> fst (computeTextureSize_loop M gs roww rowh w h)"
proof (induction M gs roww rowh w h rule: computeTextureSize_loop.induct)
  case (1 maxTex roww rowh w h)
  then show ?case by simp
next
  case (2 maxTex c cs roww rowh w h)
  show ?case
  proof (cases "ch c = 0")
    case True
    then show ?thesis using 2 by simp
  next
    case False
    then have b: "0 \<le> bw c" using "2.prems" by simp
    show ?thesis
    proof (cases "roww + bw c + 1 \<ge> maxTex")
      case True
      have "max (max w roww) (0 + (bw c + 1)) \<le>
        fst (computeTextureSize_loop maxTex cs (0 + (bw c + 1)) (max 0 (bh c)) (max w roww) (h + rowh))"
        using False True "2.prems" b by (intro "2.IH"(2)) simp_all
      then show ?thesis using False True by simp
    next
      case nb: False
      have "max w (roww + (bw c + 1)) \<le>
        fst (computeTextureSize_loop maxTex cs (roww + (bw c + 1)) (max rowh (bh c)) w h)"
        using False nb "2.prems" b by (intro "2.IH"(3)) simp_all
      then show ?thesis using False nb b by simp
    qed
  qed
qed

lemma computeTextureSize_loop_fits:
  "list_all (\<lambda>g. ch g = 0 \<or> 0 \<le> bw g) gs \<Longrightarrow> 0 \<le> roww \<Longrightarrow> g \<in> set gs \<Longrightarrow> ch g \<noteq> 0 \<Longrightarrow>
   bw g + 1 \<le> fst (computeTextureSize_loop M gs roww rowh w h)"
proof (induction M gs roww rowh w h rule: computeTextureSize_loop.induct)
  case (1 maxTex roww rowh w h)
  then show ?case by simp
next
  case (2 maxTex c cs roww rowh w h)
  have rest: "list_all (\<lambda>g. ch g = 0 \<or> 0 \<le> bw g) cs" using "2.prems"(1) by simp
  show ?case
  proof (cases "ch c = 0")
    case True
    then have "g \<in> set cs" using "2.prems" by auto
    then show ?thesis using True 2 rest by simp
  next
    case False
    then have b: "0 \<le> bw c" using "2.prems" by simp
    show ?thesis
    proof (cases "roww + bw c + 1 \<ge> maxTex")
      case True
      show ?thesis
      proof (cases "g = c")
        case gc: True
        have "max (max w roww) (0 + (bw c + 1)) \<le>
          fst (computeTextureSize_loop maxTex cs (0 + (bw c + 1)) (max 0 (bh c)) (max w roww) (h + rowh))"
          using rest b by (intro computeTextureSize_loop_ge) simp_all
        then show ?thesis using False True gc by simp
      next
        case ng: False
        then have "g \<in> set cs" using "2.prems" by auto
        then have "bw g + 1 \<le>
          fst (computeTextureSize_loop maxTex cs (0 + (bw c + 1)) (max 0 (bh c)) (max w roww) (h + rowh))"
          using False True rest b "2.prems" by (intro "2.IH"(2)) simp_all
        then show ?thesis using False True by simp
      qed
    next
      case nb: False
      show ?thesis
      proof (cases "g = c")
        case gc: True
        have "max w (roww + (bw c + 1)) \<le>
          fst (computeTextureSize_loop maxTex cs (roww + (bw c + 1)) (max rowh (bh c)) w h)"
          using rest b "2.prems"(2) by (intro computeTextureSize_loop_ge) simp_all
        then show ?thesis using False nb gc "2.prems"(2) by simp
      next
        case ng: False
        then have "g \<in> set cs" using "2.prems" by auto
        then have "bw g + 1 \<le>
          fst (computeTextureSize_loop maxTex cs (roww + (bw c + 1)) (max rowh (bh c)) w h)"
          using False nb rest b "2.prems" by (intro "2.IH"(3)) simp_all
        then show ?thesis using False nb by simp
      qed
    qed
  qed
qed


lemma placement_within_simps [simp]:
  "placement_within w (GlTexSubImage2D ox oy wd ht) = (0 \<le> ox \<and> ox + int wd \<le> w)"
  "placement_within w GlActiveTexture" "placement_within w (GlDeleteTextures n)"
  "placement_within w (GlGenTextures n)" "placement_within w (GlBindTexture n)"
  "placement_within w (GlTexImage2D a b)" "placement_within w GlPixelStorei"
  "placement_within w GlTexParameteri" "placement_within w (LoadingCharacterFailed c)"
  by (simp_all add: placement_within_def)

lemma buildAtlas_loop_placements:
  "glyphs_consistent env gs \<Longrightarrow> list_all (\<lambda>g. ch g = 0 \<or> bw g + 1 \<le> texW) gs \<Longrightarrow> 0 \<le> ox \<Longrightarrow>
   list_all (placement_within texW)
     (snd (buildAtlas_loop env texW texH gs ox oy rowh) :: 'm effect list)"
proof (induction gs arbitrary: ox oy rowh)
  case Nil
  then show ?case by simp
next
  case (Cons c cs)
  have cs: "glyphs_consistent env cs" "list_all (\<lambda>g. ch g = 0 \<or> bw g + 1 \<le> texW) cs"
    using Cons.prems by (simp_all add: glyphs_consistent_def)
  show ?case
  proof (cases "ch c = 0")
    case True
    then show ?thesis using Cons.IH[OF cs Cons.prems(3), of oy rowh] by (simp add: case_prod_beta)
  next
    case False
    then obtain s where s: "FT_Load_Char env (ch c) = Some s" "bw c = int (bitmap_width s)"
      using Cons.prems(1) by (auto simp: glyphs_consistent_def split: option.splits)
    have fit: "int (bitmap_width s) + 1 \<le> texW" using Cons.prems(2) False s by simp
    define ox1 where "ox1 = (if ox + int (bitmap_width s) > texW then 0 else ox)"
    have o1: "0 \<le> ox1" "ox1 + int (bitmap_width s) \<le> texW"
      using Cons.prems(3) fit by (auto simp: ox1_def)
    have "list_all (placement_within texW)
      (snd (buildAtlas_loop env texW texH cs (ox1 + (int (bitmap_width s) + 1))
         (if ox + int (bitmap_width s) > texW then oy + rowh else oy)
         (max (if ox + int (bitmap_width s) > texW then 0 else rowh) (int (bitmap_rows s))))
       :: 'm effect list)"
      using cs o1 by (intro Cons.IH) simp_all
    then show ?thesis
      using False s o1 by (simp add: Let_def case_prod_beta ox1_def)
  qed
qed

lemma loadGlyphInfo_consistent:
  "glyphs_consistent env [snd (loadGlyphInfo env c u)]"
  by (simp add: glyphs_consistent_def loadGlyphInfo_def split: option.splits)

lemma glyphs_consistent_append:
  "glyphs_consistent env (xs @ ys) = (glyphs_consistent env xs \<and> glyphs_consistent env ys)"
  by (simp add: glyphs_consistent_def)

lemma glyphs_consistent_map_load:
  "glyphs_consistent env (map (\<lambda>c. snd (loadGlyphInfo env c u)) cs)"
  using loadGlyphInfo_consistent[of env _ u]
  by (induction cs) (simp_all add: glyphs_consistent_def)

lemma initCommonGlyphs_consistent:
  "glyphs_consistent env (m_glyphs st) \<Longrightarrow>
   glyphs_consistent env (m_glyphs (initCommonGlyphs env st))"
  by (simp add: initCommonGlyphs_def glyphs_consistent_map_load)

lemma glyphs_consistent_nonneg:
  "glyphs_consistent env gs \<Longrightarrow> list_all (\<lambda>g. ch g = 0 \<or> 0 \<le> bw g) gs"
  by (auto simp: glyphs_consistent_def list_all_iff split: option.splits)

lemma computeTextureSize_fits:
  assumes "glyphs_consistent env (m_glyphs st)"
  shows "list_all (\<lambda>g. ch g = 0 \<or> bw g + 1 \<le> m_texWidth (computeTextureSize st)) (m_glyphs st)"
  unfolding list_all_iff
proof
  fix g assume g: "g \<in> set (m_glyphs st)"
  show "ch g = 0 \<or> bw g + 1 \<le> m_texWidth (computeTextureSize st)"
  proof (cases "ch g = 0")
    case True then show ?thesis by simp
  next
    case False
    have "bw g + 1 \<le> fst (computeTextureSize_loop (m_maxTextureSize st) (m_glyphs st) 0 0 0 0)"
      using glyphs_consistent_nonneg[OF assms] g False
      by (intro computeTextureSize_loop_fits) simp_all
    then show ?thesis by (simp add: computeTextureSize_alt)
  qed
qed

lemma buildAtlas_placements:
  fixes st :: "'m TextureFontPrivate"
  assumes "glyphs_consistent env (m_glyphs st)"
  shows "\<exists>es. effects (snd (buildAtlas env st)) = effects st @ es \<and>
     list_all (placement_within (m_texWidth (snd (buildAtlas env st)))) es"
proof -
  define st1 where "st1 = initCommonGlyphs env st"
  define st2 where "st2 = computeTextureSize st1"
  have c1: "glyphs_consistent env (m_glyphs st1)"
    using assms by (simp add: st1_def initCommonGlyphs_consistent)
  have fit: "list_all (\<lambda>g. ch g = 0 \<or> bw g + 1 \<le> m_texWidth st2) (m_glyphs st1)"
    unfolding st2_def using c1 by (rule computeTextureSize_fits)
  have pl: "list_all (placement_within (m_texWidth st2))
      (snd (buildAtlas_loop env (m_texWidth st2) (m_texHeight st2) (m_glyphs st1) 0 0 0)
        :: 'm effect list)"
    using c1 fit by (intro buildAtlas_loop_placements) simp_all
  have "\<exists>e1. effects st1 = effects st @ e1 \<and> list_all (placement_within (m_texWidth st2)) e1"
  proof (cases "m_glyphs st = []")
    case True
    then show ?thesis
      by (simp add: st1_def initCommonGlyphs_def list_all_iff image_iff)
  next
    case False
    then have "effects st1 = effects st @ []" by (simp add: st1_def initCommonGlyphs_def)
    then show ?thesis by simp
  qed
  then obtain e1 where e1: "effects st1 = effects st @ e1"
    "list_all (placement_within (m_texWidth st2)) e1"
    by blast
  have g2: "m_glyphs st2 = m_glyphs st1" "effects st2 = effects st1"
    by (simp_all add: st2_def computeTextureSize_alt)
  show ?thesis
    using e1 g2 pl
    by (simp add: buildAtlas_def Let_def case_prod_beta st1_def [symmetric] st2_def [symmetric])
qed


lemma buildAtlas_loop_consistent:
  "glyphs_consistent env gs \<Longrightarrow>
   glyphs_consistent env (fst (buildAtlas_loop env texW texH gs ox oy rowh))"
  by (induction gs arbitrary: ox oy rowh)
     (auto simp: glyphs_consistent_def Let_def case_prod_beta split: option.splits)

lemma buildAtlas_consistent:
  assumes "glyphs_consistent env (m_glyphs st)"
  shows "glyphs_consistent env (m_glyphs (snd (buildAtlas env st)))"
proof -
  have "glyphs_consistent env (m_glyphs (initCommonGlyphs env st))"
    using assms by (rule initCommonGlyphs_consistent)
  then show ?thesis
    by (simp add: buildAtlas_def Let_def case_prod_beta computeTextureSize_alt
          buildAtlas_loop_consistent)
qed

lemma example_font_consistent: "glyphs_consistent example_env (m_glyphs example_font)"
  unfolding example_font_def
  by (rule buildAtlas_consistent) (simp add: example_new_font_def glyphs_consistent_def)

lemma example_font_narrow:
  "list_all (\<lambda>g. ch g = 0 \<or> bw g + 1 \<le> 256) (m_glyphs example_font)"
  using example_font_consistent
  by (auto simp: glyphs_consistent_def list_all_iff example_env_def example_slot_def
        split: option.splits if_splits)

lemma example_font_maxTextureSize: "m_maxTextureSize example_font = 256"
  using example_font_frame by (simp add: font_frame_def example_new_font_def)

text \<open>
  C5, as the code has it.  \<^verbatim>\<open>computeTextureSize\<close> sets the texture width to the widest
  row and the texture height to the sum of the row heights, where the rows hold the
  glyphs not marked bad, in order, and a glyph joins a row that already holds one only
  if the row stays narrower than the maximum texture size (otherwise it starts a new
  row).  The width is at most the maximum texture size provided that no glyph with
  its one pixel of padding is wider than the maximum.  Every glyph that \<^verbatim>\<open>buildAtlas\<close>
  pastes lies, horizontally, within the computed texture width.  (The glyph table is
  taken to agree with the face: a glyph not marked bad loads, with the stored bitmap
  size.)
\<close>

theorem atlas_packing_within_width:
  fixes st :: "'m TextureFontPrivate"
  assumes "glyphs_consistent env (m_glyphs st)"
  shows "m_texWidth (computeTextureSize st) =
           foldl max 0 (map row_width (shelf_rows (m_maxTextureSize st) (m_glyphs st) [])) \<and>
         m_texHeight (computeTextureSize st) =
           sum_list (map row_height (shelf_rows (m_maxTextureSize st) (m_glyphs st) [])) \<and>
         concat (shelf_rows (m_maxTextureSize st) (m_glyphs st) []) =
           filter (\<lambda>g. ch g \<noteq> 0) (m_glyphs st) \<and>
         list_all (\<lambda>r. length r \<le> 1 \<or> row_width r < m_maxTextureSize st)
           (shelf_rows (m_maxTextureSize st) (m_glyphs st) []) \<and>
         (0 \<le> m_maxTextureSize st \<and>
          list_all (\<lambda>g. ch g = 0 \<or> bw g + 1 \<le> m_maxTextureSize st) (m_glyphs st) \<longrightarrow>
            m_texWidth (computeTextureSize st) \<le> m_maxTextureSize st) \<and>
         (\<exists>es. effects (snd (buildAtlas env st)) = effects st @ es \<and>
            list_all (placement_within (m_texWidth (snd (buildAtlas env st)))) es)"
proof -
  have rows: "computeTextureSize_loop (m_maxTextureSize st) (m_glyphs st) 0 0 0 0 =
     (foldl max 0 (map row_width (shelf_rows (m_maxTextureSize st) (m_glyphs st) [])),
      0 + sum_list (map row_height (shelf_rows (m_maxTextureSize st) (m_glyphs st) [])))"
    using computeTextureSize_loop_rows[of "m_maxTextureSize st" "m_glyphs st" "[]" 0 0] by simp
  have le: "m_texWidth (computeTextureSize st) \<le> m_maxTextureSize st"
    if "0 \<le> m_maxTextureSize st"
      "list_all (\<lambda>g. ch g = 0 \<or> bw g + 1 \<le> m_maxTextureSize st) (m_glyphs st)"
    using that by (simp add: computeTextureSize_alt computeTextureSize_loop_le_max)
  have below: "list_all (\<lambda>r. length r \<le> 1 \<or> row_width r < m_maxTextureSize st)
           (shelf_rows (m_maxTextureSize st) (m_glyphs st) [])"
    by (rule shelf_rows_below_max) simp
  show ?thesis
    using rows le below buildAtlas_placements[OF assms]
    by (simp add: computeTextureSize_alt concat_shelf_rows)
qed

theorem atlas_packing_within_width_witness:
  "glyphs_consistent example_env (m_glyphs example_font) \<and>
   0 \<le> m_maxTextureSize example_font \<and>
   list_all (\<lambda>g. ch g = 0 \<or> bw g + 1 \<le> m_maxTextureSize example_font) (m_glyphs example_font) \<and>
   m_texWidth (computeTextureSize example_font) \<le> 256 \<and>
   list_all (placement_within (m_texWidth (snd (buildAtlas example_env example_font))))
     (drop (length (effects example_font)) (effects (snd (buildAtlas example_env example_font))))"
proof -
  obtain es where "effects (snd (buildAtlas example_env example_font)) = effects example_font @ es"
    "list_all (placement_within (m_texWidth (snd (buildAtlas example_env example_font)))) es"
    using atlas_packing_within_width [OF example_font_consistent] by blast
  moreover have "m_texWidth (computeTextureSize example_font) \<le> 256"
    using atlas_packing_within_width [OF example_font_consistent] example_font_narrow
      example_font_maxTextureSize by simp
  ultimately show ?thesis
    using example_font_consistent example_font_narrow example_font_maxTextureSize by simp
qed

lemma computeTextureSize_loop_all_wide:
  "list_all (\<lambda>g. ch g \<noteq> 0 \<and> bw g = 100) gs \<Longrightarrow> gs \<noteq> [] \<Longrightarrow>
   0 \<le> roww \<Longrightarrow> roww \<le> 101 \<Longrightarrow> w \<le> 101 \<Longrightarrow>
   fst (computeTextureSize_loop 64 gs roww rowh w h) = 101"
proof (induction gs arbitrary: roww rowh w h)
  case Nil
  then show ?case by simp
next
  case (Cons c cs)
  show ?case
  proof (cases "cs = []")
    case True
    then show ?thesis using Cons.prems by auto
  next
    case False
    have "fst (computeTextureSize_loop 64 cs 101 (max 0 (bh c)) (max w roww) (h + rowh)) = 101"
      using Cons.prems False by (intro Cons.IH) simp_all
    then show ?thesis using Cons.prems by simp
  qed
qed

text \<open>
  The claim's bound on the width fails for a font whose glyphs are wider than the
  maximum texture size: with 100 pixel wide bitmaps and a maximum of 64, the computed
  texture width is 101.
\<close>

theorem texture_width_exceeds_maximum_counterexample:
  "m_maxTextureSize example_wide_font = 64 \<and> m_texWidth example_wide_font = 101"
proof -
  define st1 where "st1 = initCommonGlyphs example_wide_env (example_new_font\<lparr>m_maxTextureSize := 64\<rparr>)"
  have g: "m_glyphs st1 =
      map (\<lambda>c. snd (loadGlyphInfo example_wide_env c (uninit_Glyph example_wide_env))) common_chars"
    and m: "m_maxTextureSize st1 = 64"
    by (simp_all add: st1_def initCommonGlyphs_def example_new_font_def)
  have pos: "list_all (\<lambda>c. c \<noteq> 0) common_chars"
    by (simp add: common_chars_def m_unicodeBlocks_def list_all_iff)
  have "list_all (\<lambda>g. ch g \<noteq> 0 \<and> bw g = 100) (m_glyphs st1)"
    using pos
    by (simp add: g list_all_iff loadGlyphInfo_def example_wide_env_def example_slot_def)
  moreover have "m_glyphs st1 \<noteq> []" by (simp add: g common_chars_def m_unicodeBlocks_def)
  ultimately have "fst (computeTextureSize_loop 64 (m_glyphs st1) 0 0 0 0) = 101"
    by (intro computeTextureSize_loop_all_wide) simp_all
  then have "m_texWidth (computeTextureSize st1) = 101" by (simp add: computeTextureSize_alt m)
  moreover have "m_texWidth example_wide_font = m_texWidth (computeTextureSize st1)"
    and "m_maxTextureSize example_wide_font = 64"
    by (simp_all add: example_wide_font_def buildAtlas_def Let_def case_prod_beta st1_def m
          computeTextureSize_alt initCommonGlyphs_def example_new_font_def)
  ultimately show ?thesis by simp
qed

subsection \<open>Glyph lookup\<close>

lemma buildAtlas_loop_metrics:
  "map metrics (fst (buildAtlas_loop env texW texH gs ox oy rowh)) = map metrics gs"
  by (induction gs arbitrary: ox oy rowh)
     (simp_all add: Let_def case_prod_beta metrics_def split: option.splits)

lemma buildAtlas_loop_ch:
  "glyphs_consistent env gs \<Longrightarrow>
   map ch (fst (buildAtlas_loop env texW texH gs ox oy rowh)) = map ch gs"
  by (induction gs arbitrary: ox oy rowh)
     (auto simp: glyphs_consistent_def Let_def case_prod_beta split: option.splits)

lemma buildAtlas_glyphs_ch_init:
  assumes "glyphs_consistent env (m_glyphs st)"
  shows "map ch (m_glyphs (snd (buildAtlas env st))) =
         map ch (m_glyphs (initCommonGlyphs env st))"
  using initCommonGlyphs_consistent[OF assms]
  by (simp add: buildAtlas_def Let_def case_prod_beta computeTextureSize_alt
        buildAtlas_loop_ch)


lemma buildAtlas_glyphs_metrics:
  "map metrics (m_glyphs (snd (buildAtlas env st))) =
   map metrics (m_glyphs (initCommonGlyphs env st))"
  by (simp add: buildAtlas_def Let_def case_prod_beta computeTextureSize_alt
        buildAtlas_loop_metrics)









lemma getGlyph_consistent:
  assumes "glyphs_consistent env (m_glyphs st)" and "getGlyph env c st = Some (g, st')"
  shows "glyphs_consistent env (m_glyphs st')"
proof -
  have a: "glyphs_consistent env
      (m_glyphs (snd (buildAtlas env
         (st0\<lparr>m_glyphs := m_glyphs st @ [snd (loadGlyphInfo env c (uninit_Glyph env))],
              m_inserted := k\<rparr>))))" for st0 :: "'a TextureFontPrivate" and k
    using assms(1) loadGlyphInfo_consistent[of env c "uninit_Glyph env"]
    by (intro buildAtlas_consistent) (simp add: glyphs_consistent_append)
  show ?thesis
    using assms a
    by (auto simp: getGlyph_def Let_def case_prod_beta getCommonGlyphsCount_def optimize_def
          split: if_splits option.splits)
qed

lemma length_glyphs_new_font:
  "m_glyphs st = [] \<Longrightarrow> length (m_glyphs (snd (buildAtlas env st))) = 126"
  by (simp add: buildAtlas_def Let_def case_prod_beta computeTextureSize_alt
        initCommonGlyphs_def length_buildAtlas_loop length_common_chars)

lemma metrics_new_font:
  assumes "m_glyphs st = []" and "k < 126"
  shows "metrics (m_glyphs (snd (buildAtlas env st)) ! k) =
         metrics (snd (loadGlyphInfo env (common_chars ! k) (uninit_Glyph env)))"
proof -
  have "metrics (m_glyphs (snd (buildAtlas env st)) ! k) =
        map metrics (m_glyphs (snd (buildAtlas env st))) ! k"
    using assms by (simp add: length_glyphs_new_font)
  also have "\<dots> = map metrics (m_glyphs (initCommonGlyphs env st)) ! k"
    by (simp only: buildAtlas_glyphs_metrics)
  also have "\<dots> = metrics (snd (loadGlyphInfo env (common_chars ! k) (uninit_Glyph env)))"
    using assms by (simp add: initCommonGlyphs_def length_common_chars)
  finally show ?thesis .
qed

lemma ch_new_font:
  assumes "m_glyphs st = []" and "k < 126"
  shows "ch (m_glyphs (snd (buildAtlas env st)) ! k) =
         ch (snd (loadGlyphInfo env (common_chars ! k) (uninit_Glyph env)))"
proof -
  have c: "glyphs_consistent env (m_glyphs st)" using assms(1) by (simp add: glyphs_consistent_def)
  have "ch (m_glyphs (snd (buildAtlas env st)) ! k) =
        map ch (m_glyphs (snd (buildAtlas env st))) ! k"
    using assms by (simp add: length_glyphs_new_font)
  also have "\<dots> = map ch (m_glyphs (initCommonGlyphs env st)) ! k"
    by (simp only: buildAtlas_glyphs_ch_init[OF c])
  also have "\<dots> = ch (snd (loadGlyphInfo env (common_chars ! k) (uninit_Glyph env)))"
    using assms by (simp add: initCommonGlyphs_def length_common_chars)
  finally show ?thesis .
qed

lemma common_chars_nth:
  "common_chars ! 1 = 0x21" "common_chars ! 31 = 0x3F" "common_chars ! 33 = 0x41"
  "common_chars ! 34 = 0x42"
  by (simp_all add: common_chars_def m_unicodeBlocks_def nth_append nth_upto)

lemma example_font_length: "length (m_glyphs example_font) = 126"
  unfolding example_font_def by (rule length_glyphs_new_font) (simp add: example_new_font_def)

lemma example_font_count: "m_commonGlyphsCount example_font = 0"
  by (simp add: example_font_def example_new_font_def)





text \<open>
  C3 at code point 0.  The face has no glyph for U+0000 and has one for the fallback
  \<open>?\<close>.  \<^verbatim>\<open>getGlyph(0, '?')\<close> returns the bad-glyph sentinel, not the record of \<open>?\<close>:
  the sentinel's \<open>ch\<close> is 0, which the test \<^verbatim>\<open>g.ch == ch\<close> takes for a hit.
\<close>

theorem getGlyph_fallback_zero_returns_sentinel:
  "FT_Load_Char example_env 0 = None \<and>
   getGlyph_fallback example_env 0 0x3F example_font =
     Some (g_badGlyph, example_font\<lparr>m_commonGlyphsCount := 126\<rparr>) \<and>
   map_option (\<lambda>(g, st'). (ch g, metrics g)) (getGlyph example_env 0x3F example_font) =
     Some (0x3F, 9, 0, 7, 10, 1, 10) \<and>
   metrics g_badGlyph = (0, 0, 0, 0, 0, 0)"
proof -
  have t0: "toPos 0 = - 1" by (simp add: toPos_def m_unicodeBlocks_def)
  have l: "FT_Load_Char example_env 0 = None" by (simp add: example_env_def)
  have 1: "getGlyph example_env 0 example_font =
      Some (g_badGlyph, example_font\<lparr>m_commonGlyphsCount := 126\<rparr>)"
    using t0 l example_font_length example_font_count
    by (simp add: getGlyph_def getCommonGlyphsCount_def m_unicodeBlocks_def Let_def
          loadGlyphInfo_def)
  have 2: "getGlyph example_env 0x3F example_font = Some (m_glyphs example_font ! 31, example_font)"
    using example_font_length by (simp add: getGlyph_def)
  have 3: "metrics (m_glyphs example_font ! 31) = (9, 0, 7, 10, 1, 10)"
    unfolding example_font_def
    by (subst metrics_new_font)
       (simp_all add: example_new_font_def common_chars_nth loadGlyphInfo_def example_env_def
          example_slot_def metrics_def drop_bit_eq_div)
  have 4: "ch (m_glyphs example_font ! 31) = 0x3F"
    unfolding example_font_def
    by (subst ch_new_font)
       (simp_all add: example_new_font_def common_chars_nth loadGlyphInfo_def example_env_def)
  show ?thesis
    using l 1 2 3 4 by (simp add: getGlyph_fallback_def g_badGlyph_def metrics_def)
qed


text \<open>
  When the fallback itself is in a pre-loaded block and did not load, what comes back is
  the table's entry for it: the record that \<^verbatim>\<open>initCommonGlyphs\<close> pushed without ever
  initialising it, marked bad, with whatever metrics the memory held (here 5), and not
  the all-zero sentinel.
\<close>

lemma getGlyph_fallback_unloadable_fallback:
  "map_option (\<lambda>(g, st'). (ch g, metrics g))
     (getGlyph_fallback example_env_no_fallback 0x263A 0x3F example_font_no_fallback) =
   Some (0, 5, 5, 5, 5, 5, 5)"
proof -
  have t: "toPos 0x263A = - 1" by (simp add: toPos_def m_unicodeBlocks_def)
  have len: "length (m_glyphs example_font_no_fallback) = 126"
    unfolding example_font_no_fallback_def
    by (rule length_glyphs_new_font) (simp add: example_new_font_def)
  have cnt: "m_commonGlyphsCount example_font_no_fallback = 0"
    by (simp add: example_font_no_fallback_def example_new_font_def)
  have 1: "getGlyph example_env_no_fallback 0x263A example_font_no_fallback =
      Some (g_badGlyph, example_font_no_fallback\<lparr>m_commonGlyphsCount := 126\<rparr>)"
    using t len cnt
    by (simp add: getGlyph_def getCommonGlyphsCount_def m_unicodeBlocks_def Let_def
          loadGlyphInfo_def example_env_no_fallback_def)
  have 2: "getGlyph example_env_no_fallback 0x3F
        (example_font_no_fallback\<lparr>m_commonGlyphsCount := 126\<rparr>) =
      Some (m_glyphs example_font_no_fallback ! 31,
            example_font_no_fallback\<lparr>m_commonGlyphsCount := 126\<rparr>)"
    using len by (simp add: getGlyph_def)
  have 3: "metrics (m_glyphs example_font_no_fallback ! 31) = (5, 5, 5, 5, 5, 5)"
    unfolding example_font_no_fallback_def
    by (subst metrics_new_font)
       (simp_all add: example_new_font_def common_chars_nth loadGlyphInfo_def
          example_env_no_fallback_def example_env_def metrics_def)
  have 4: "ch (m_glyphs example_font_no_fallback ! 31) = 0"
    unfolding example_font_no_fallback_def
    by (subst ch_new_font)
       (simp_all add: example_new_font_def common_chars_nth loadGlyphInfo_def
          example_env_no_fallback_def)
  show ?thesis
    using 1 2 3 4 by (simp add: getGlyph_fallback_def g_badGlyph_def)
qed

text \<open>
  For a code point other than 0 that the face does not load, the first lookup returns a
  record of another code point, so \<^verbatim>\<open>getGlyph(ch, fallback)\<close> returns what the lookup
  of the fallback returns.
\<close>

lemma getGlyph_fallback_substitutes:
  assumes "font_ready st" and "glyphs_consistent env (m_glyphs st)"
    and "c \<noteq> 0" and "FT_Load_Char env c = None"
  shows "\<exists>g1 st1. getGlyph env c st = Some (g1, st1) \<and> ch g1 \<noteq> c \<and>
     getGlyph_fallback env c fb st = getGlyph env fb st1"
proof -
  have no: "ch g \<noteq> c" if "g \<in> set (m_glyphs st)" for g
    using assms(2-4) that by (auto simp: glyphs_consistent_def list_all_iff)
  obtain g1 st1 where g: "getGlyph env c st = Some (g1, st1)"
    using getGlyph_ready[OF assms(1), of env c] by blast
  have "ch g1 \<noteq> c"
  proof (cases "toPos c = - 1")
    case False
    then have "nat (toPos c) < 126" using toPos_range[of c] by linarith
    then have l: "nat (toPos c) < length (m_glyphs st)"
      using assms(1) by (simp add: font_ready_def length_common_chars)
    then have "g1 = m_glyphs st ! nat (toPos c)" using g False by (auto simp: getGlyph_def)
    then show ?thesis using no l by simp
  next
    case True
    have f: "find (\<lambda>g. ch g = c) (drop n (m_glyphs st)) = None" for n
      using no by (auto simp: find_None_iff dest: in_set_dropD)
    have gl: "m_glyphs (snd (getCommonGlyphsCount st)) = m_glyphs st"
      by (simp add: getCommonGlyphsCount_def Let_def)
    have "g1 = g_badGlyph"
      using g True f assms(4) gl
      by (simp add: getGlyph_def Let_def case_prod_beta loadGlyphInfo_def split: if_splits)
    then show ?thesis using assms(3) by (simp add: g_badGlyph_def)
  qed
  then show ?thesis using g by (simp add: getGlyph_fallback_def)
qed


subsection \<open>Printing on the overlay\<close>

lemma valid_float_mk_float [simp]: "valid_float (mk_float r)"
  by (simp add: mk_float_def rnd32_idem)

lemma valid_float_ops [simp]:
  "valid_float (fadd a b)" "valid_float (fsub a b)" "valid_float (fdiv a b)"
  "valid_float (float_of_int i)"
  by (cases a; cases b; simp add: float_of_int_def)+

lemma fadd_zero_right: "valid_float z \<Longrightarrow> fadd z (Finite 0) = z"
  by (cases z) (simp_all add: mk_float_def)

lemma mk_float_small_numeral [simp]: "mk_float 10 = Finite 10" "mk_float 0 = Finite 0"
  using mk_float_of_int[of 10] mk_float_of_int[of 0] by simp_all

lemma bind_fields:
  "font_ready (bind env f) = font_ready f"
  "m_fontVertices (bind env f) = m_fontVertices f"
  "render_log (bind env f) = render_log f"
  "getHeight (bind env f) = getHeight f"
  by (simp_all add: bind_def getProgram_def font_ready_def getHeight_def)

lemma setMVPMatrix_ready:
  assumes "font_ready f" and "length (m_fontVertices f) mod 4 = 0"
  shows "\<exists>f'. setMVPMatrix env m f = Some f' \<and> font_ready f' \<and>
     length (m_fontVertices f') mod 4 = 0 \<and> render_log f' = render_log f \<and>
     getHeight f' = getHeight f"
proof -
  define f1 where "f1 = snd (getProgram env (f\<lparr>m_MVP := m\<rparr>))"
  have s1: "m_fontVertices f1 = m_fontVertices f" "render_log f1 = render_log f"
    "getHeight f1 = getHeight f" "font_ready f1"
    using assms(1) by (simp_all add: f1_def getProgram_def getHeight_def font_ready_def)
  have "length (m_fontVertices f1) mod 4 = 0" using assms(2) s1 by simp
  then have "\<exists>f2. flush f1 = Some f2 \<and> m_fontVertices f2 = [] \<and> font_ready f2 = font_ready f1 \<and>
      font_frame (f1\<lparr>m_fontVertices := []\<rparr>) f2"
    using flush_whole_quads[of f1] by (elim meta_impE exE conjE) (assumption, fast)
  then obtain f2 where f2: "flush f1 = Some f2" "m_fontVertices f2 = []"
    "font_ready f2 = font_ready f1" "font_frame (f1\<lparr>m_fontVertices := []\<rparr>) f2"
    by (elim exE conjE)
  have o2: "render_log f2 = render_log f" "getHeight f2 = getHeight f"
    using f2(4) s1 by (simp_all add: font_frame_def getHeight_def)
  show ?thesis
  proof (cases "fst (getProgram env (f\<lparr>m_MVP := m\<rparr>)) \<and> m_shaderInUse f1")
    case True
    then have "setMVPMatrix env m f = Some (f2\<lparr>effects := effects f2 @ [Mat4Param m]\<rparr>)"
      using f2(1) by (simp add: setMVPMatrix_def case_prod_beta f1_def [symmetric])
    then show ?thesis using f2 o2 s1 by (simp add: font_ready_def getHeight_def)
  next
    case False
    then have "setMVPMatrix env m f = Some f1"
      by (auto simp: setMVPMatrix_def case_prod_beta f1_def [symmetric])
    then show ?thesis using s1 assms(2) by simp
  qed
qed

lemma bind_font_ready:
  assumes "font ov = Some f" and "overlay_ready ov"
  shows "\<exists>ov'. bind_font env f ov = Some ov' \<and> overlay_ready ov' \<and>
     overlay_log ov' = overlay_log ov \<and> overlay_height ov' = overlay_height ov \<and>
     global_x ov' = global_x ov \<and> global_y ov' = global_y ov \<and>
     xoffset ov' = xoffset ov \<and> yoffset ov' = yoffset ov \<and>
     posStack ov' = posStack ov \<and> textBlock ov' = textBlock ov"
proof -
  have r: "font_ready (bind env f)" "length (m_fontVertices (bind env f)) mod 4 = 0"
    using assms by (simp_all add: overlay_ready_def bind_fields)
  obtain f' where f': "setMVPMatrix env (mvp ov) (bind env f) = Some f'" "font_ready f'"
    "length (m_fontVertices f') mod 4 = 0" "render_log f' = render_log (bind env f)"
    "getHeight f' = getHeight (bind env f)"
    using setMVPMatrix_ready[OF r, of env "mvp ov"] by (elim exE conjE)
  then show ?thesis
    using assms(1)
    by (simp add: bind_font_def overlay_ready_def overlay_log_def overlay_height_def bind_fields)
qed

lemma bind_if_needed:
  assumes "font ov = Some f" and "overlay_ready ov"
  shows "\<exists>ov'. (if \<not> useTexture ov \<or> fontChanged ov then bind_font env f ov else Some ov) = Some ov' \<and>
     overlay_ready ov' \<and>
     overlay_log ov' = overlay_log ov \<and> overlay_height ov' = overlay_height ov \<and>
     global_x ov' = global_x ov \<and> global_y ov' = global_y ov \<and>
     xoffset ov' = xoffset ov \<and> yoffset ov' = yoffset ov \<and>
     posStack ov' = posStack ov \<and> textBlock ov' = textBlock ov"
  using bind_font_ready[OF assms, of env] assms(2) by (cases "\<not> useTexture ov \<or> fontChanged ov") auto

lemma getHeight_frame: "font_frame f f' \<Longrightarrow> getHeight f' = getHeight f"
  by (simp add: font_frame_def getHeight_def)

lemma print_glyph:
  assumes "overlay_ready ov" and "c \<noteq> 10"
  shows "\<exists>ov'. print env c ov = Some ov' \<and> overlay_ready ov' \<and>
     overlay_log ov' = overlay_log ov @
       [(c, fadd (global_x ov) (xoffset ov), fadd (global_y ov) (yoffset ov))] \<and>
     overlay_height ov' = overlay_height ov \<and>
     global_x ov' = global_x ov \<and> global_y ov' = global_y ov \<and> yoffset ov' = yoffset ov \<and>
     posStack ov' = posStack ov \<and> textBlock ov' = textBlock ov"
proof -
  obtain f where f: "font ov = Some f" using assms(1) by (auto simp: overlay_ready_def split: option.splits)
  obtain ov1 where ov1:
    "(if \<not> useTexture ov \<or> fontChanged ov then bind_font env f ov else Some ov) = Some ov1"
    "overlay_ready ov1" "overlay_log ov1 = overlay_log ov" "overlay_height ov1 = overlay_height ov"
    "global_x ov1 = global_x ov" "global_y ov1 = global_y ov"
    "xoffset ov1 = xoffset ov" "yoffset ov1 = yoffset ov"
    "posStack ov1 = posStack ov" "textBlock ov1 = textBlock ov"
    using bind_if_needed[OF f assms(1), of env] by (elim exE conjE)
  obtain f1 where f1: "font ov1 = Some f1" "font_ready f1" "length (m_fontVertices f1) mod 4 = 0"
    using ov1(2) by (auto simp: overlay_ready_def split: option.splits)
  obtain r f2 where f2: "render_char env c (fadd (global_x ov1) (xoffset ov1))
        (fadd (global_y ov1) (yoffset ov1)) f1 = Some (r, f2)"
    "font_ready f2" "length (m_fontVertices f2) = length (m_fontVertices f1) + 4"
    "render_log f2 = render_log f1 @
       [(c, fadd (global_x ov1) (xoffset ov1), fadd (global_y ov1) (yoffset ov1))]"
    "m_maxAscent f2 = m_maxAscent f1" "m_maxDescent f2 = m_maxDescent f1"
    using render_char_ready[OF f1(2), of env c "fadd (global_x ov1) (xoffset ov1)" "fadd (global_y ov1) (yoffset ov1)"] by (elim exE conjE)
  obtain g f3 where f3: "getGlyph_fallback env c 0x3F f2 = Some (g, f3)" "font_ready f3"
    "font_frame f2 f3"
    using getGlyph_fallback_ready[OF f2(2), of env c "0x3F"] by (elim exE conjE)
  have p: "print env c ov =
      Some (ov1\<lparr>xoffset := fadd (xoffset ov1) (float_of_int (sint (word_of_int (ax g) :: 16 word))),
               font := Some f3\<rparr>)"
    using f ov1(1) f1(1) f2(1) f3(1) assms(2) by (simp add: print_def getAdvance_def)
  have v3: "length (m_fontVertices f3) mod 4 = 0"
    using f3(3) f2(3) f1(3) by (simp add: font_frame_def)
  have l3: "render_log f3 = render_log f2" and h3: "getHeight f3 = getHeight f1"
    using f3(3) f2(5,6) by (simp_all add: font_frame_def getHeight_def)
  show ?thesis
    using p ov1 f1 f2(4) f3(2) v3 l3 h3
    by (simp add: overlay_ready_def overlay_log_def overlay_height_def)
qed

lemma print_newline:
  assumes "overlay_ready ov" and "0 < textBlock ov" and "posStack ov = ps @ [(px, py)]"
  shows "\<exists>ov'. print env 10 ov = Some ov' \<and> overlay_ready ov' \<and>
     overlay_log ov' = overlay_log ov \<and> overlay_height ov' = overlay_height ov \<and>
     global_x ov' = px \<and>
     global_y ov' = fsub py (fadd (Finite 1) (float_of_int (overlay_height ov))) \<and>
     xoffset ov' = Finite 0 \<and> yoffset ov' = Finite 0 \<and>
     posStack ov' = ps @ [(global_x ov', global_y ov')] \<and> textBlock ov' = textBlock ov"
proof -
  obtain f where f: "font ov = Some f" using assms(1) by (auto simp: overlay_ready_def split: option.splits)
  obtain ov1 where ov1:
    "(if \<not> useTexture ov \<or> fontChanged ov then bind_font env f ov else Some ov) = Some ov1"
    "overlay_ready ov1" "overlay_log ov1 = overlay_log ov" "overlay_height ov1 = overlay_height ov"
    "posStack ov1 = posStack ov" "textBlock ov1 = textBlock ov"
    using bind_if_needed[OF f assms(1), of env] by (elim exE conjE)
  obtain f1 where f1: "font ov1 = Some f1"
    using ov1(2) by (auto simp: overlay_ready_def split: option.splits)
  have h: "getHeight f1 = overlay_height ov" using ov1(4) f1 by (simp add: overlay_height_def)
  show ?thesis
    using f ov1 f1 h assms(2,3)
    by (simp add: print_def Let_def restorePos_def savePos_def overlay_ready_def overlay_log_def
          overlay_height_def)
qed


lemma beginText_ready:
  assumes "overlay_ready ov"
  shows "\<exists>ov'. beginText env ov = Some ov' \<and> overlay_ready ov' \<and>
     overlay_log ov' = overlay_log ov \<and> overlay_height ov' = overlay_height ov \<and>
     global_x ov' = global_x ov \<and> global_y ov' = global_y ov \<and>
     xoffset ov' = xoffset ov \<and> yoffset ov' = yoffset ov \<and>
     posStack ov' = posStack ov @ [(global_x ov, global_y ov)] \<and>
     textBlock ov' = textBlock ov + 1"
proof -
  obtain f where f: "font ov = Some f"
    using assms by (auto simp: overlay_ready_def split: option.splits)
  define ov2 where "ov2 = (savePos ov)\<lparr>textBlock := textBlock (savePos ov) + 1\<rparr>"
  have f2: "font ov2 = Some f" and r2: "overlay_ready ov2"
    using f assms by (simp_all add: ov2_def savePos_def overlay_ready_def)
  have "font (savePos ov) = Some f" using f by (simp add: savePos_def)
  then have b: "beginText env ov = bind_font env f ov2"
    by (simp add: beginText_def Let_def ov2_def)
  have o2: "overlay_log ov2 = overlay_log ov" "overlay_height ov2 = overlay_height ov"
    "global_x ov2 = global_x ov" "global_y ov2 = global_y ov"
    "xoffset ov2 = xoffset ov" "yoffset ov2 = yoffset ov"
    "posStack ov2 = posStack ov @ [(global_x ov, global_y ov)]"
    "textBlock ov2 = textBlock ov + 1"
    by (simp_all add: ov2_def savePos_def overlay_log_def overlay_height_def)
  show ?thesis
    using bind_font_ready[OF f2 r2, of env] b o2 by simp
qed

lemma valid_float_10 [simp]: "valid_float (Finite 10)"
  using valid_float_mk_float[of 10] by (simp del: valid_float_mk_float)

text \<open>
  C6.  With a font set, a text block begun at cursor (10, 10) and the text \<open>A\<close>, newline,
  \<open>B\<close> printed in it: every call returns, exactly two glyphs are rendered, \<open>A\<close> at
  (10, 10) and \<open>B\<close> at (10, 10 - (1 + line height)), and the newline leaves the
  accumulated offsets at 0 and renders nothing.
\<close>

theorem print_A_newline_B:
  assumes "overlay_ready ov"
    and "global_x ov = Finite 10" and "global_y ov = Finite 10"
    and "xoffset ov = Finite 0" and "yoffset ov = Finite 0"
    and "0 \<le> textBlock ov"
  shows "\<exists>ov0 ov1 ov2 ov3.
     beginText env ov = Some ov0 \<and> 0 < textBlock ov0 \<and>
     print env 0x41 ov0 = Some ov1 \<and> print env 10 ov1 = Some ov2 \<and>
     print env 0x42 ov2 = Some ov3 \<and>
     overlay_log ov1 = overlay_log ov @ [(0x41, Finite 10, Finite 10)] \<and>
     overlay_log ov2 = overlay_log ov1 \<and>
     xoffset ov2 = Finite 0 \<and> yoffset ov2 = Finite 0 \<and>
     overlay_log ov3 = overlay_log ov @
       [(0x41, Finite 10, Finite 10),
        (0x42, Finite 10,
           fsub (Finite 10) (fadd (Finite 1) (float_of_int (overlay_height ov))))]"
proof -
  obtain ov0 where ov0: "beginText env ov = Some ov0" "overlay_ready ov0"
    "overlay_log ov0 = overlay_log ov" "overlay_height ov0 = overlay_height ov"
    "global_x ov0 = global_x ov" "global_y ov0 = global_y ov"
    "xoffset ov0 = xoffset ov" "yoffset ov0 = yoffset ov"
    "posStack ov0 = posStack ov @ [(global_x ov, global_y ov)]"
    "textBlock ov0 = textBlock ov + 1"
    using beginText_ready[OF assms(1), of env] by (elim exE conjE)
  have "(0x41 :: int) \<noteq> 10" by simp
  from print_glyph[OF ov0(2) this, of env]
  obtain ov1 where ov1: "print env 0x41 ov0 = Some ov1" "overlay_ready ov1"
    "overlay_log ov1 = overlay_log ov0 @
       [(0x41, fadd (global_x ov0) (xoffset ov0), fadd (global_y ov0) (yoffset ov0))]"
    "overlay_height ov1 = overlay_height ov0"
    "global_x ov1 = global_x ov0" "global_y ov1 = global_y ov0" "yoffset ov1 = yoffset ov0"
    "posStack ov1 = posStack ov0" "textBlock ov1 = textBlock ov0"
    by (elim exE conjE)
  have t1: "0 < textBlock ov1" using ov1(9) ov0(10) assms(6) by simp
  have p1: "posStack ov1 = posStack ov @ [(Finite 10, Finite 10)]"
    using ov1(8) ov0(9) assms(2,3) by simp
  define y2 where "y2 = fsub (Finite 10) (fadd (Finite 1) (float_of_int (overlay_height ov)))"
  from print_newline[OF ov1(2) t1 p1, of env]
  obtain ov2 where ov2: "print env 10 ov1 = Some ov2" "overlay_ready ov2"
    "overlay_log ov2 = overlay_log ov1" "overlay_height ov2 = overlay_height ov1"
    "global_x ov2 = Finite 10"
    "global_y ov2 = fsub (Finite 10) (fadd (Finite 1) (float_of_int (overlay_height ov1)))"
    "xoffset ov2 = Finite 0" "yoffset ov2 = Finite 0"
    by (elim exE conjE)
  have g2: "global_y ov2 = y2" using ov2(6) ov1(4) ov0(4) by (simp add: y2_def)
  have "(0x42 :: int) \<noteq> 10" by simp
  from print_glyph[OF ov2(2) this, of env]
  obtain ov3 where ov3: "print env 0x42 ov2 = Some ov3"
    "overlay_log ov3 = overlay_log ov2 @
       [(0x42, fadd (global_x ov2) (xoffset ov2), fadd (global_y ov2) (yoffset ov2))]"
    by (elim exE conjE)
  have v: "valid_float y2" by (simp add: y2_def)
  have a: "fadd (Finite 10) (Finite 0) = Finite 10" by simp
  have b: "fadd y2 (Finite 0) = y2" using v by (rule fadd_zero_right)
  have l1: "overlay_log ov1 = overlay_log ov @ [(0x41, Finite 10, Finite 10)]"
    using ov1(3) ov0(3,5,6,7,8) assms(2-5) a by simp
  have l3: "overlay_log ov3 = overlay_log ov @ [(0x41, Finite 10, Finite 10), (0x42, Finite 10, y2)]"
    using ov3(2) ov2(3,5,7,8) g2 l1 a b by simp
  have t0: "0 < textBlock ov0" using ov0(10) assms(6) by simp
  show ?thesis
    using ov0(1) t0 ov1(1) ov2(1) ov3(1) l1 ov2(3,7,8) l3 unfolding y2_def by blast
qed

lemma example_overlay_ready: "overlay_ready example_overlay"
  by (simp add: overlay_ready_def example_overlay_def example_font_ready example_font_no_vertices)

lemma example_overlay_log: "overlay_log example_overlay = []"
  using example_font_frame
  by (simp add: overlay_log_def example_overlay_def font_frame_def example_new_font_def)

lemma example_overlay_height: "overlay_height example_overlay = 15"
  using example_font_frame
  by (simp add: overlay_height_def example_overlay_def font_frame_def example_new_font_def
        getHeight_def)

lemma example_line_step: "fsub (Finite 10) (fadd (Finite 1) (float_of_int 15)) = Finite (- 6)"
  using mk_float_of_int[of 15] mk_float_of_int[of 16] mk_float_of_int[of "- 6"]
  by (simp add: float_of_int_def)

theorem print_A_newline_B_witness:
  "overlay_ready example_overlay \<and>
   global_x example_overlay = Finite 10 \<and> global_y example_overlay = Finite 10 \<and>
   xoffset example_overlay = Finite 0 \<and> yoffset example_overlay = Finite 0 \<and>
   0 \<le> textBlock example_overlay \<and>
   (\<exists>ov0 ov1 ov2 ov3.
     beginText example_env example_overlay = Some ov0 \<and> 0 < textBlock ov0 \<and>
     print example_env 0x41 ov0 = Some ov1 \<and> print example_env 10 ov1 = Some ov2 \<and>
     print example_env 0x42 ov2 = Some ov3 \<and>
     overlay_log ov1 = [(0x41, Finite 10, Finite 10)] \<and>
     overlay_log ov2 = overlay_log ov1 \<and>
     xoffset ov2 = Finite 0 \<and> yoffset ov2 = Finite 0 \<and>
     overlay_log ov3 = [(0x41, Finite 10, Finite 10), (0x42, Finite 10, Finite (- 6))])"
proof -
  have h: "global_x example_overlay = Finite 10" "global_y example_overlay = Finite 10"
    "xoffset example_overlay = Finite 0" "yoffset example_overlay = Finite 0"
    "0 \<le> textBlock example_overlay"
    by (simp_all add: example_overlay_def)
  show ?thesis
    using print_A_newline_B [OF example_overlay_ready h, of example_env]
      example_overlay_ready h
    by (simp add: example_overlay_log example_overlay_height example_line_step)
qed

subsection \<open>Rendering and measuring a string\<close>

lemma same_font_refl [simp]: "same_font st st"
  by (simp add: same_font_def)

lemma same_font_render_glyph: "same_font st st' \<Longrightarrow> same_font st (render_glyph g x y st')"
  by (simp add: same_font_def render_glyph_def Let_def)

lemma same_font_bind_texture:
  "same_font st (st\<lparr>effects := e\<rparr>)"
  by (simp add: same_font_def)

lemma buildAtlas_same:
  assumes "same_font st st'"
  shows "same_font (snd (buildAtlas env st)) (snd (buildAtlas env st'))"
  using assms
  by (simp add: same_font_def buildAtlas_def Let_def case_prod_beta computeTextureSize_alt
        initCommonGlyphs_def)

lemma getCommonGlyphsCount_same:
  assumes "same_font st st'"
  shows "fst (getCommonGlyphsCount st') = fst (getCommonGlyphsCount st)"
    and "same_font (snd (getCommonGlyphsCount st)) (snd (getCommonGlyphsCount st'))"
  using assms by (simp_all add: same_font_def getCommonGlyphsCount_def Let_def)

lemma getGlyph_same:
  assumes "same_font st st'"
  shows "(getGlyph env c st = None \<longrightarrow> getGlyph env c st' = None) \<and>
     (\<forall>g s1. getGlyph env c st = Some (g, s1) \<longrightarrow>
        (\<exists>s1'. getGlyph env c st' = Some (g, s1') \<and> same_font s1 s1'))"
proof (cases "toPos c \<noteq> - 1")
  case True
  have "m_glyphs st' = m_glyphs st" using assms by (simp add: same_font_def)
  then show ?thesis using True assms by (simp add: getGlyph_def Let_def)
next
  case dyn: False
  let ?n = "fst (getCommonGlyphsCount st)"
  let ?t = "snd (getCommonGlyphsCount st)"
  let ?t' = "snd (getCommonGlyphsCount st')"
  let ?ok = "fst (loadGlyphInfo env c (uninit_Glyph env))"
  let ?cg = "snd (loadGlyphInfo env c (uninit_Glyph env))"
  have n': "fst (getCommonGlyphsCount st') = ?n" and tt: "same_font ?t ?t'"
    using getCommonGlyphsCount_same[OF assms] by simp_all
  have gl: "m_glyphs ?t' = m_glyphs ?t" and ins: "m_inserted ?t' = m_inserted ?t"
    using tt by (simp_all add: same_font_def)
  show ?thesis
  proof (cases "nat ?n > length (m_glyphs ?t)")
    case True
    then show ?thesis using dyn n' gl by (simp add: getGlyph_def Let_def case_prod_beta)
  next
    case len: False
    show ?thesis
    proof (cases "find (\<lambda>g. ch g = c) (drop (nat ?n) (m_glyphs ?t))")
      case (Some g)
      then show ?thesis using dyn n' gl len tt by (simp add: getGlyph_def Let_def case_prod_beta)
    next
      case None
      show ?thesis
      proof (cases ?ok)
        case False
        then show ?thesis using dyn n' gl len tt None
          by (simp add: getGlyph_def Let_def case_prod_beta)
      next
        case True
        let ?a = "if m_inserted ?t + 1 = 10
                  then optimize (?t\<lparr>m_glyphs := m_glyphs ?t @ [?cg], m_inserted := m_inserted ?t + 1\<rparr>)
                  else ?t\<lparr>m_glyphs := m_glyphs ?t @ [?cg], m_inserted := m_inserted ?t + 1\<rparr>"
        let ?a' = "if m_inserted ?t + 1 = 10
                  then optimize (?t'\<lparr>m_glyphs := m_glyphs ?t @ [?cg], m_inserted := m_inserted ?t + 1\<rparr>)
                  else ?t'\<lparr>m_glyphs := m_glyphs ?t @ [?cg], m_inserted := m_inserted ?t + 1\<rparr>"
        have "same_font ?a ?a'" using tt by (simp add: same_font_def optimize_def)
        then have b: "same_font (snd (buildAtlas env ?a)) (snd (buildAtlas env ?a'))"
          by (rule buildAtlas_same)
        then have l: "last (m_glyphs (snd (buildAtlas env ?a'))) =
                      last (m_glyphs (snd (buildAtlas env ?a)))"
          by (simp add: same_font_def)
        have 1: "getGlyph env c st =
                 Some (last (m_glyphs (snd (buildAtlas env ?a))), snd (buildAtlas env ?a))"
          using dyn len None True by (simp add: getGlyph_def Let_def case_prod_beta)
        have 2: "getGlyph env c st' =
                 Some (last (m_glyphs (snd (buildAtlas env ?a'))), snd (buildAtlas env ?a'))"
          using dyn len None True n' gl ins by (simp add: getGlyph_def Let_def case_prod_beta)
        show ?thesis unfolding 1 2 using b l by simp
      qed
    qed
  qed
qed

lemma getGlyph_fallback_same:
  assumes "same_font st st'" and "getGlyph_fallback env c fb st = Some (g, s1)"
  shows "\<exists>s1'. getGlyph_fallback env c fb st' = Some (g, s1') \<and> same_font s1 s1'"
proof -
  obtain g0 t where g0: "getGlyph env c st = Some (g0, t)"
    using assms(2) by (auto simp: getGlyph_fallback_def split: option.splits)
  obtain t' where t': "getGlyph env c st' = Some (g0, t')" "same_font t t'"
    using getGlyph_same[OF assms(1), of env c] g0 by blast
  show ?thesis
  proof (cases "ch g0 = c")
    case True
    then show ?thesis using assms(2) g0 t' by (simp add: getGlyph_fallback_def)
  next
    case False
    then have "getGlyph env fb t = Some (g, s1)"
      using assms(2) g0 by (simp add: getGlyph_fallback_def)
    then obtain s1' where "getGlyph env fb t' = Some (g, s1')" "same_font s1 s1'"
      using getGlyph_same[OF t'(2), of env fb] by blast
    then show ?thesis using False t' by (simp add: getGlyph_fallback_def)
  qed
qed


lemma advances_loop_ready:
  "font_ready st \<Longrightarrow> \<exists>as. advances_loop env dec s i st = Some as"
proof (induction env dec s i st rule: advances_loop.induct)
  case (1 env dec s i st)
  show ?case
  proof (cases "i < length s")
    case False
    then show ?thesis by (subst advances_loop.simps) simp
  next
    case lt: True
    show ?thesis
    proof (cases "dec s i")
      case None
      then show ?thesis using lt by (subst advances_loop.simps) simp
    next
      case (Some c)
      obtain g st1 where g: "getGlyph_fallback env c 0x3F st = Some (g, st1)"
        and r1: "font_ready st1"
        using getGlyph_fallback_ready[OF "1.prems", of env c "0x3F"] by (elim exE conjE)
      have "\<exists>as. advances_loop env dec s (i + UTF8EncodedSize c) st1 = Some as"
        using lt Some g r1 by (intro "1.IH") simp_all
      then show ?thesis using lt Some g by (subst advances_loop.simps) auto
    qed
  qed
qed

lemma getWidth_loop_advances:
  "advances_loop env dec s i st = Some as \<Longrightarrow>
   \<exists>st1. getWidth_loop env dec s i w st = Some (w + sum_list as, st1)"
proof (induction env dec s i st arbitrary: as w rule: advances_loop.induct)
  case (1 env dec s i st)
  show ?case
  proof (cases "i < length s")
    case False
    then have "as = []" using "1.prems" by (subst (asm) advances_loop.simps) simp
    then show ?thesis using False by (subst getWidth_loop.simps) simp
  next
    case lt: True
    show ?thesis
    proof (cases "dec s i")
      case None
      then have "as = []" using "1.prems" lt by (subst (asm) advances_loop.simps) simp
      then show ?thesis using lt None by (subst getWidth_loop.simps) simp
    next
      case (Some c)
      obtain g st1 bs where g: "getGlyph_fallback env c 0x3F st = Some (g, st1)"
        and bs: "advances_loop env dec s (i + UTF8EncodedSize c) st1 = Some bs"
        and as: "as = ax g # bs"
        using "1.prems" lt Some
        by (subst (asm) advances_loop.simps) (auto split: option.splits)
      have "\<exists>st2. getWidth_loop env dec s (i + UTF8EncodedSize c) (w + ax g) st1 =
              Some (w + ax g + sum_list bs, st2)"
        using lt Some g bs by (intro "1.IH") simp_all
      then show ?thesis using lt Some g as by (subst getWidth_loop.simps) (simp add: add.assoc)
    qed
  qed
qed

lemma render_loop_advances:
  "advances_loop env dec s i st = Some as \<Longrightarrow> same_font st st' \<Longrightarrow>
   \<exists>st2. render_loop env dec s i x y st' = Some (pen_after x as, st2)"
proof (induction env dec s i st arbitrary: as x y st' rule: advances_loop.induct)
  case (1 env dec s i st)
  show ?case
  proof (cases "i < length s")
    case False
    then have "as = []" using "1.prems" by (subst (asm) advances_loop.simps) simp
    then show ?thesis using False by (subst render_loop.simps) (simp add: pen_after_def)
  next
    case lt: True
    show ?thesis
    proof (cases "dec s i")
      case None
      then have "as = []" using "1.prems" lt by (subst (asm) advances_loop.simps) simp
      then show ?thesis using lt None by (subst render_loop.simps) (simp add: pen_after_def)
    next
      case (Some c)
      obtain g st1 bs where g: "getGlyph_fallback env c 0x3F st = Some (g, st1)"
        and bs: "advances_loop env dec s (i + UTF8EncodedSize c) st1 = Some bs"
        and as: "as = ax g # bs"
        using "1.prems"(1) lt Some
        by (subst (asm) advances_loop.simps) (auto split: option.splits)
      obtain st1' where g': "getGlyph_fallback env c 0x3F st' = Some (g, st1')"
        and s1: "same_font st1 st1'"
        using getGlyph_fallback_same[OF "1.prems"(2) g] by (elim exE conjE)
      have s2: "same_font st1 (render_glyph g x y st1')"
        using s1 by (rule same_font_render_glyph)
      have "\<exists>st2. render_loop env dec s (i + UTF8EncodedSize c)
              (fadd x (float_of_int (ax g))) (fadd y (float_of_int (ay g)))
              (render_glyph g x y st1') =
              Some (pen_after (fadd x (float_of_int (ax g))) bs, st2)"
        using lt Some g bs s2 by (intro "1.IH") simp_all
      then show ?thesis using lt Some g' as
        by (subst render_loop.simps) (simp add: pen_after_def)
    qed
  qed
qed

lemma float_of_int_exact: "\<bar>n\<bar> \<le> 2 ^ 24 \<Longrightarrow> float_of_int n = Finite (of_int n)"
  by (simp add: float_of_int_def mk_float_of_int)

lemma fadd_int_exact:
  assumes "\<bar>a\<bar> + \<bar>b\<bar> \<le> 2 ^ 24"
  shows "fadd (Finite (of_int a)) (float_of_int b) = Finite (of_int (a + b))"
proof -
  have "\<bar>b\<bar> \<le> 2 ^ 24" "\<bar>a + b\<bar> \<le> 2 ^ 24" using assms by linarith+
  then show ?thesis using mk_float_of_int[of "a + b"] by (simp add: float_of_int_exact)
qed

lemma pen_after_exact:
  "\<bar>xi\<bar> + sum_list (map abs as) \<le> 2 ^ 24 \<Longrightarrow>
   pen_after (Finite (of_int xi)) as = Finite (of_int (xi + sum_list as))"
proof (induction as arbitrary: xi)
  case Nil
  then show ?case by (simp add: pen_after_def)
next
  case (Cons a as)
  have p: "0 \<le> sum_list (map abs as)" by (induction as) simp_all
  have 1: "\<bar>xi\<bar> + \<bar>a\<bar> \<le> 2 ^ 24" using Cons.prems p by simp
  have 2: "\<bar>xi + a\<bar> + sum_list (map abs as) \<le> 2 ^ 24" using Cons.prems by simp
  have "pen_after (Finite (of_int xi)) (a # as) = pen_after (Finite (of_int (xi + a))) as"
    using fadd_int_exact[OF 1] by (simp add: pen_after_def)
  then show ?case using Cons.IH[OF 2] by (simp add: add.assoc)
qed

lemma sum_list_abs_le: "\<bar>sum_list as\<bar> \<le> sum_list (map abs (as :: int list))"
  by (induction as) auto

text \<open>
  C1, as the code has it.  On a loaded font whose texture is built, \<^verbatim>\<open>getWidth(s)\<close>
  returns the integer sum of the advances of the glyphs of \<open>s\<close>, and
  \<^verbatim>\<open>render(s, x, y)\<close> returns the pen after adding the same advances to \<open>x\<close> one at a
  time, each sum rounded to single precision.  When \<open>x\<close> is an integer and its absolute
  value plus the absolute advances is at most \<open>2\<^sup>2\<^sup>4\<close>, no sum is rounded, and the value
  returned by \<^verbatim>\<open>render\<close> is \<open>x\<close> plus the value returned by \<^verbatim>\<open>getWidth\<close>.
\<close>

theorem render_advances_pen_by_width:
  assumes "font_ready st" and "m_texName st \<noteq> 0"
  shows "\<exists>as st1 st2.
     advances_loop env dec s 0 st = Some as \<and>
     getWidth env dec s st = Some (sum_list as, st1) \<and>
     render_string env dec s x y st = Some (pen_after x as, st2) \<and>
     (x = Finite (of_int xi) \<and> \<bar>xi\<bar> + sum_list (map abs as) \<le> 2 ^ 24 \<longrightarrow>
        pen_after x as = fadd x (float_of_int (sum_list as)) \<and>
        pen_after x as = Finite (of_int (xi + sum_list as)))"
proof -
  obtain as where as: "advances_loop env dec s 0 st = Some as"
    using advances_loop_ready[OF assms(1)] by blast
  obtain st1 where w: "getWidth env dec s st = Some (sum_list as, st1)"
    using getWidth_loop_advances[OF as, of 0] by (auto simp: getWidth_def)
  have "same_font st (st\<lparr>effects := effects st @ [GlBindTexture (m_texName st)]\<rparr>)"
    by (rule same_font_bind_texture)
  from render_loop_advances[OF as this, of x y]
  obtain st2 where r: "render_string env dec s x y st = Some (pen_after x as, st2)"
    using assms(2) by (auto simp: render_string_def)
  have e: "pen_after x as = fadd x (float_of_int (sum_list as)) \<and>
        pen_after x as = Finite (of_int (xi + sum_list as))"
    if x: "x = Finite (of_int xi)" and b: "\<bar>xi\<bar> + sum_list (map abs as) \<le> 2 ^ 24"
  proof -
    have "\<bar>xi\<bar> + \<bar>sum_list as\<bar> \<le> 2 ^ 24" using b sum_list_abs_le[of as] by linarith
    then have "fadd x (float_of_int (sum_list as)) = Finite (of_int (xi + sum_list as))"
      unfolding x by (rule fadd_int_exact)
    then show ?thesis using pen_after_exact[OF b] x by simp
  qed
  show ?thesis using as w r e by blast
qed


lemma rnd32_examples:
  "rnd32 16777225 = 16777224" "rnd32 16777233 = 16777232" "rnd32 16777234 = 16777234"
  by code_simp+

lemma mk_float_examples:
  "mk_float 16777225 = Finite 16777224" "mk_float 16777233 = Finite 16777232"
  "mk_float 16777234 = Finite 16777234"
  by (simp_all add: mk_float_def rnd32_examples FLT_MAX_def)

lemma example_font_texName: "m_texName example_font = 1"
  by (simp add: example_font_def buildAtlas_texName example_env_def example_new_font_def)

lemma example_lookup:
  assumes "toPos c = int k" and "k < 126" and "common_chars ! k = c"
    and "c \<noteq> 0" and "c \<noteq> 0x263A"
  shows "\<exists>g. getGlyph_fallback example_env c 0x3F example_font = Some (g, example_font) \<and>
     ax g = 9"
proof -
  have 1: "getGlyph example_env c example_font = Some (m_glyphs example_font ! k, example_font)"
    using assms(1,2) example_font_length by (simp add: getGlyph_def)
  have 2: "ch (m_glyphs example_font ! k) = c"
    unfolding example_font_def using assms(2-5)
    by (subst ch_new_font)
       (simp_all add: example_new_font_def loadGlyphInfo_def example_env_def)
  have 3: "metrics (m_glyphs example_font ! k) = (9, 0, 7, 10, 1, 10)"
    unfolding example_font_def using assms(2-5)
    by (subst metrics_new_font)
       (simp_all add: example_new_font_def loadGlyphInfo_def example_env_def
          example_slot_def metrics_def drop_bit_eq_div)
  show ?thesis using 1 2 3 by (simp add: getGlyph_fallback_def metrics_def)
qed

lemma example_advances:
  "advances_loop example_env example_decode ''AB'' 0 example_font = Some [9, 9]"
proof -
  obtain gA where a: "getGlyph_fallback example_env 0x41 0x3F example_font = Some (gA, example_font)"
    "ax gA = 9"
    using example_lookup[of "0x41" 33] by (auto simp: common_chars_nth)
  obtain gB where b: "getGlyph_fallback example_env 0x42 0x3F example_font = Some (gB, example_font)"
    "ax gB = 9"
    using example_lookup[of "0x42" 34] by (auto simp: common_chars_nth)
  have d: "example_decode ''AB'' 0 = Some 0x41" "example_decode ''AB'' 1 = Some 0x42"
    by (simp_all add: example_decode_def)
  have 3: "advances_loop example_env example_decode ''AB'' (Suc (Suc 0)) example_font = Some []"
    by (subst advances_loop.simps) simp
  have 2: "advances_loop example_env example_decode ''AB'' (Suc 0) example_font = Some [9]"
    using d b 3 by (subst advances_loop.simps) (simp add: UTF8EncodedSize_def)
  show ?thesis
    using d a 2 by (subst advances_loop.simps) (simp add: UTF8EncodedSize_def)
qed

theorem render_advances_pen_by_width_witness:
  "font_ready example_font \<and> m_texName example_font \<noteq> 0 \<and>
   advances_loop example_env example_decode ''AB'' 0 example_font = Some [9, 9] \<and>
   (\<exists>st1 st2.
      getWidth example_env example_decode ''AB'' example_font = Some (18, st1) \<and>
      render_string example_env example_decode ''AB'' (Finite 10) (Finite 0) example_font =
        Some (Finite 28, st2)) \<and>
   fadd (Finite 10) (float_of_int 18) = Finite 28"
proof -
  have b: "\<bar>10\<bar> + sum_list (map abs [9, 9 :: int]) \<le> (2 ^ 24 :: int)" by simp
  have t: "m_texName example_font \<noteq> 0" by (simp add: example_font_texName)
  show ?thesis
    using render_advances_pen_by_width [OF example_font_ready t,
        of example_env example_decode "''AB''" "Finite 10" "Finite 0" 10]
      example_font_ready t b
    by (auto simp: example_advances)
qed

text \<open>
  The claim as stated fails where a sum is rounded.  Every glyph of the example font
  advances the pen by 9, so \<^verbatim>\<open>getWidth("AB")\<close> is 18.  From \<open>x = 2\<^sup>2\<^sup>4\<close>, where single
  precision holds only the even integers, \<^verbatim>\<open>render\<close> rounds \<open>x + 9\<close> down to
  16777224 and that plus 9 down to 16777232, while \<open>x\<close> plus the width is 16777234.
\<close>

theorem render_rounds_each_advance_counterexample:
  "font_ready example_font \<and> m_texName example_font \<noteq> 0 \<and>
   (\<exists>st1 st2.
      getWidth example_env example_decode ''AB'' example_font = Some (18, st1) \<and>
      render_string example_env example_decode ''AB'' (Finite 16777216) (Finite 0)
        example_font = Some (Finite 16777232, st2)) \<and>
   fadd (Finite 16777216) (float_of_int 18) = Finite 16777234"
proof -
  have t: "m_texName example_font \<noteq> 0" by (simp add: example_font_texName)
  obtain st1 where w: "getWidth example_env example_decode ''AB'' example_font = Some (18, st1)"
    using getWidth_loop_advances[OF example_advances, of 0] by (auto simp: getWidth_def)
  have "same_font example_font
          (example_font\<lparr>effects := effects example_font @ [GlBindTexture (m_texName example_font)]\<rparr>)"
    by (rule same_font_bind_texture)
  from render_loop_advances[OF example_advances this, of "Finite 16777216" "Finite 0"]
  obtain st2 where r: "render_string example_env example_decode ''AB'' (Finite 16777216)
        (Finite 0) example_font = Some (pen_after (Finite 16777216) [9, 9], st2)"
    using t by (auto simp: render_string_def)
  have 9: "float_of_int 9 = Finite 9" "float_of_int 18 = Finite 18"
    using float_of_int_exact[of 9] float_of_int_exact[of 18] by simp_all
  have p: "pen_after (Finite 16777216) [9, 9] = Finite 16777232"
    by (simp add: pen_after_def 9 mk_float_examples)
  have s: "fadd (Finite 16777216) (float_of_int 18) = Finite 16777234"
    by (simp add: 9 mk_float_examples)
  show ?thesis using example_font_ready t w r p s by auto
qed

end
